theory Spec2Isabelle
  imports Complex_Main "HOL-Library.AList"
begin

section \<open>JavaScript values used by the capture tool\<close>

text \<open>
  A \<open>Record<string, V>\<close> is an association list whose keys are kept in insertion
  order: \<open>obj[k]\<close> is \<open>map_of obj k\<close> (\<open>None\<close> for \<open>undefined\<close>), the assignment
  \<open>obj[k] = v\<close> is \<open>AList.update k v obj\<close>, and \<open>for (k in obj)\<close> walks
  \<open>map fst obj\<close>. A string is truthy exactly when it is not empty.
\<close>

type_synonym 'v js_record = "(string \<times> 'v) list"

text \<open>\<open>v || d\<close> for a possibly undefined string \<open>v\<close>.\<close>

definition str_or :: "string option \<Rightarrow> string \<Rightarrow> string" where
  "str_or v d = (case v of None \<Rightarrow> d | Some s \<Rightarrow> if s = [] then d else s)"

text \<open>\<open>s.split(c)\<close> for a one-character separator; the result is never empty.\<close>

fun split_on :: "char \<Rightarrow> string \<Rightarrow> string list" where
  "split_on c [] = [[]]"
| "split_on c (x # xs) =
     (if x = c then [] # split_on c xs
      else (case split_on c xs of
              [] \<Rightarrow> [[x]]
            | w # ws \<Rightarrow> (x # w) # ws))"

text \<open>\<open>a.pop()\<close> read for its value only: the last entry, \<open>undefined\<close> on an empty array.\<close>

definition pop :: "'a list \<Rightarrow> 'a option" where
  "pop xs = (if xs = [] then None else Some (last xs))"

section \<open>Trace records and animation profiles (types module)\<close>

record InteractionEvent =
  ev_kind :: string
  ev_selector :: string

record DOMSnapshot =
  dom_selector :: string
  dom_html :: string
  dom_attributes :: "string js_record"
  dom_classes :: "string list"
  dom_text :: "string option"

record StyleSnapshot =
  style_selector :: string
  style_computed :: "string js_record"

record Snapshot =
  snap_dom :: DOMSnapshot
  snap_style :: StyleSnapshot

record TraceRecord =
  tr_ts :: int
  tr_type :: string
  tr_event :: "InteractionEvent option"
  tr_before :: "Snapshot option"
  tr_after :: "Snapshot option"

datatype effect_type = Transition | Animation | ClassToggle | DomManipulation

record PropChange =
  pc_from :: string
  pc_to :: string

record Timing =
  duration :: string
  easing :: "string option"
  delay :: "string option"

record Trigger =
  trig_event :: string
  trig_selector :: string

record Effect =
  eff_type :: effect_type
  eff_target :: string
  eff_properties :: "PropChange js_record"
  eff_timing :: "Timing option"

record StyleChange =
  sc_trigger :: Trigger
  sc_effect :: Effect

record AnimationProfile =
  ap_name :: string
  ap_trigger :: Trigger
  ap_effect :: Effect

section \<open>Profile extraction (TraceWriter)\<close>

text \<open>
  The property loop of \<open>findConsistentStyleChanges\<close>: for every key of the after style
  whose value differs from the before style's, record \<open>{from, to}\<close>.
\<close>

definition prop_step ::
  "string js_record \<Rightarrow> string js_record \<Rightarrow> PropChange js_record \<Rightarrow> string \<Rightarrow> PropChange js_record" where
  "prop_step beforeStyle afterStyle properties prop =
     (if map_of beforeStyle prop \<noteq> map_of afterStyle prop
      then AList.update prop
             \<lparr>pc_from = str_or (map_of beforeStyle prop) [],
              pc_to = str_or (map_of afterStyle prop) []\<rparr> properties
      else properties)"

definition changed_properties :: "string js_record \<Rightarrow> string js_record \<Rightarrow> PropChange js_record" where
  "changed_properties beforeStyle afterStyle =
     foldl (prop_step beforeStyle afterStyle) [] (map fst afterStyle)"

text \<open>The body of the loop over the traces of one group, for one trace.\<close>

definition trace_changes :: "TraceRecord \<Rightarrow> StyleChange list" where
  "trace_changes trace =
     (case (tr_event trace, tr_before trace, tr_after trace) of
        (Some ev, Some before, Some after) \<Rightarrow>
          (let beforeStyle = style_computed (snap_style before);
               afterStyle = style_computed (snap_style after);
               properties = changed_properties beforeStyle afterStyle
           in if length properties > 0
              then
                (let effectType =
                       (if length (dom_classes (snap_dom after)) \<noteq> length (dom_classes (snap_dom before))
                        then ClassToggle
                        else if map_of properties ''animation-name'' \<noteq> None then Animation
                        else Transition);
                     timing =
                       (if map_of properties ''transition'' \<noteq> None
                        then Some \<lparr>duration = str_or (map_of afterStyle ''transition-duration'') ''0s'',
                                   easing = Some (str_or (map_of afterStyle ''transition-timing-function'') ''ease''),
                                   delay = Some (str_or (map_of afterStyle ''transition-delay'') ''0s'')\<rparr>
                        else None)
                 in [\<lparr>sc_trigger = \<lparr>trig_event = ev_kind ev, trig_selector = ev_selector ev\<rparr>,
                      sc_effect = \<lparr>eff_type = effectType, eff_target = ev_selector ev,
                                   eff_properties = properties, eff_timing = timing\<rparr>\<rparr>])
              else [])
      | _ \<Rightarrow> [])"

definition findConsistentStyleChanges :: "TraceRecord list \<Rightarrow> StyleChange list" where
  "findConsistentStyleChanges traces = concat (map trace_changes traces)"

text \<open>
  The \<open>Map<string, TraceRecord[]>\<close> of \<open>extractProfiles\<close>: entries in insertion order;
  \<open>set\<close> of a new key appends, \<open>get(k).push(t)\<close> extends the stored array in place.
\<close>

definition group_step ::
  "(string \<times> TraceRecord list) list \<Rightarrow> TraceRecord \<Rightarrow> (string \<times> TraceRecord list) list" where
  "group_step bySelector trace =
     (case tr_event trace of
        Some ev \<Rightarrow>
          (if tr_type trace = ''interaction''
           then (let selector = ev_selector ev;
                     m = (if map_of bySelector selector = None
                          then AList.update selector [] bySelector else bySelector)
                 in (case map_of m selector of
                       Some ts \<Rightarrow> AList.update selector (ts @ [trace]) m
                     | None \<Rightarrow> m))
           else bySelector)
      | None \<Rightarrow> bySelector)"

definition group_by_selector :: "TraceRecord list \<Rightarrow> (string \<times> TraceRecord list) list" where
  "group_by_selector traces = foldl group_step [] traces"

definition profile_name :: "string \<Rightarrow> string \<Rightarrow> string" where
  "profile_name event selector =
     event @ ''-on-'' @ str_or (pop (split_on CHR '' '' selector)) ''element''"

definition group_profiles :: "string \<times> TraceRecord list \<Rightarrow> AnimationProfile list" where
  "group_profiles g =
     map (\<lambda>change. \<lparr>ap_name = profile_name (trig_event (sc_trigger change)) (fst g),
                     ap_trigger = sc_trigger change,
                     ap_effect = sc_effect change\<rparr>)
         (findConsistentStyleChanges (snd g))"

definition extractProfiles :: "TraceRecord list \<Rightarrow> AnimationProfile list" where
  "extractProfiles traces = concat (map group_profiles (group_by_selector traces))"

text \<open>
  Grouping as the specification words it: the selector an interaction record is filed
  under, the distinct selectors in order of first appearance.
\<close>

definition trace_selector :: "TraceRecord \<Rightarrow> string option" where
  "trace_selector t =
     (if tr_type t = ''interaction'' then map_option ev_selector (tr_event t) else None)"

fun first_occ :: "'a list \<Rightarrow> 'a list" where
  "first_occ [] = []"
| "first_occ (x # xs) = x # filter (\<lambda>y. y \<noteq> x) (first_occ xs)"

definition groups_spec :: "TraceRecord list \<Rightarrow> (string \<times> TraceRecord list) list" where
  "groups_spec traces =
     map (\<lambda>s. (s, filter (\<lambda>t. trace_selector t = Some s) traces))
         (first_occ (List.map_filter trace_selector traces))"

text \<open>Sample interaction records.\<close>

definition example_snapshot :: "string js_record \<Rightarrow> Snapshot" where
  "example_snapshot computed =
     \<lparr>snap_dom = \<lparr>dom_selector = ''button.cta'', dom_html = ''<button class=\"cta\"></button>'',
                   dom_attributes = [], dom_classes = [''cta''], dom_text = None\<rparr>,
      snap_style = \<lparr>style_selector = ''button.cta'', style_computed = computed\<rparr>\<rparr>"

definition example_trace :: "string \<Rightarrow> string js_record \<Rightarrow> string js_record \<Rightarrow> TraceRecord" where
  "example_trace selector beforeStyle afterStyle =
     \<lparr>tr_ts = 0, tr_type = ''interaction'',
      tr_event = Some \<lparr>ev_kind = ''click'', ev_selector = selector\<rparr>,
      tr_before = Some (example_snapshot beforeStyle),
      tr_after = Some (example_snapshot afterStyle)\<rparr>"

definition cta_trace :: TraceRecord where
  "cta_trace = example_trace ''button.cta''
     [(''transform'', ''scale(1)''), (''opacity'', ''1'')]
     [(''transform'', ''scale(0.95)''), (''opacity'', ''0.8'')]"

definition transition_trace :: TraceRecord where
  "transition_trace = example_trace ''button.cta''
     [(''transition'', ''none'')]
     [(''transition'', ''all 0.3s ease 0s'')]"

definition vanish_trace :: TraceRecord where
  "vanish_trace = example_trace ''button.cta''
     [(''transform'', ''scale(1)''), (''filter'', ''blur(2px)'')]
     [(''transform'', ''scale(1)'')]"

definition opacity_trace :: "string \<Rightarrow> string \<Rightarrow> TraceRecord" where
  "opacity_trace selector v = example_trace selector [(''opacity'', ''1'')] [(''opacity'', v)]"

definition busy_traces :: "TraceRecord list" where
  "busy_traces =
     [opacity_trace ''button.cta'' ''0.5'', opacity_trace ''button.cta'' ''0.6'', transition_trace]"

section \<open>Strings and numbers in templates\<close>

fun digit_char :: "nat \<Rightarrow> char" where
  "digit_char n = char_of (48 + n)"

text \<open>\<open>String(n)\<close> for a natural number.\<close>

fun show_nat :: "nat \<Rightarrow> string" where
  "show_nat n = (if n < 10 then [digit_char n] else show_nat (n div 10) @ [digit_char (n mod 10)])"

text \<open>\<open>String(i)\<close> for an integer.\<close>

definition show_int :: "int \<Rightarrow> string" where
  "show_int i = (if i < 0 then CHR ''-'' # show_nat (nat (- i)) else show_nat (nat i))"

text \<open>\<open>a.join(sep)\<close>.\<close>

fun join :: "string \<Rightarrow> string list \<Rightarrow> string" where
  "join sep [] = []"
| "join sep [x] = x"
| "join sep (x # y # ys) = x @ sep @ join sep (y # ys)"

text \<open>\<open>s.toLowerCase()\<close> on the ASCII letters.\<close>

definition lower_char :: "char \<Rightarrow> char" where
  "lower_char c =
     (let n = (of_char c :: nat) in if 65 \<le> n \<and> n \<le> 90 then char_of (n + 32) else c)"

definition toLowerCase :: "string \<Rightarrow> string" where
  "toLowerCase s = map lower_char s"

fun startsWith :: "string \<Rightarrow> string \<Rightarrow> bool" where
  "startsWith s [] = True"
| "startsWith [] (p # ps) = False"
| "startsWith (c # cs) (p # ps) = (c = p \<and> startsWith cs ps)"

text \<open>\<open>s.includes(p)\<close>: \<open>p\<close> occurs in \<open>s\<close> as a substring.\<close>

fun str_includes :: "string \<Rightarrow> string \<Rightarrow> bool" where
  "str_includes [] p = (p = [])"
| "str_includes (c # cs) p = (startsWith (c # cs) p \<or> str_includes cs p)"

text \<open>\<open>a.indexOf(x)\<close>, \<open>-1\<close> when absent.\<close>

fun indexOf :: "'a list \<Rightarrow> 'a \<Rightarrow> int" where
  "indexOf [] x = - 1"
| "indexOf (y # ys) x =
     (if y = x then 0 else (let i = indexOf ys x in if i < 0 then - 1 else i + 1))"

definition is_digit :: "char \<Rightarrow> bool" where
  "is_digit c = (let n = (of_char c :: nat) in 48 \<le> n \<and> n \<le> 57)"

definition is_letter :: "char \<Rightarrow> bool" where
  "is_letter c = (let n = (of_char c :: nat) in (65 \<le> n \<and> n \<le> 90) \<or> (97 \<le> n \<and> n \<le> 122))"

definition is_hex_digit :: "char \<Rightarrow> bool" where
  "is_hex_digit c =
     (let n = (of_char c :: nat)
      in (48 \<le> n \<and> n \<le> 57) \<or> (65 \<le> n \<and> n \<le> 70) \<or> (97 \<le> n \<and> n \<le> 102))"

section \<open>Stable selector engine (selectors module)\<close>

text \<open>
  The page as the engine reads it. Elements are identified by a number, so \<open>===\<close> on
  elements is equality of numbers. \<open>doc_querySelectorAll\<close> answers \<open>None\<close> where the
  browser throws on an invalid selector.
\<close>

record Document =
  doc_tagName :: "nat \<Rightarrow> string"
  doc_getAttribute :: "nat \<Rightarrow> string \<Rightarrow> string option"
  doc_classList :: "nat \<Rightarrow> string list"
  doc_parentElement :: "nat \<Rightarrow> nat option"
  doc_children :: "nat \<Rightarrow> nat list"
  doc_documentElement :: nat
  doc_querySelectorAll :: "string \<Rightarrow> nat list option"

record SelectorOptions =
  opt_ignoreAttributes :: "string list option"
  opt_preferredAttributes :: "string list option"
  opt_maxDepth :: "int option"

record SelectorEngine =
  ignoreAttributes :: "string list"
  preferredAttributes :: "string list"
  maxDepth :: int

definition DEFAULT_IGNORED_ATTRIBUTES :: "string list" where
  "DEFAULT_IGNORED_ATTRIBUTES =
     [''data-reactid'', ''data-react-checksum'', ''data-v-'', ''data-svelte-'', ''_ngcontent-'',
      ''_nghost-'', ''data-emotion-'', ''data-styled-'', ''ng-reflect-'']"

definition DEFAULT_PREFERRED_ATTRIBUTES :: "string list" where
  "DEFAULT_PREFERRED_ATTRIBUTES =
     [''id'', ''data-testid'', ''data-test'', ''data-id'', ''name'', ''aria-label'', ''role'',
      ''type'', ''href'', ''for'']"

text \<open>The constructor: an absent option, and a \<open>maxDepth\<close> of zero, take the default.\<close>

definition StableSelectorEngine :: "SelectorOptions \<Rightarrow> SelectorEngine" where
  "StableSelectorEngine options =
     \<lparr>ignoreAttributes =
        (case opt_ignoreAttributes options of Some l \<Rightarrow> l | None \<Rightarrow> DEFAULT_IGNORED_ATTRIBUTES),
      preferredAttributes =
        (case opt_preferredAttributes options of Some l \<Rightarrow> l | None \<Rightarrow> DEFAULT_PREFERRED_ATTRIBUTES),
      maxDepth =
        (case opt_maxDepth options of Some d \<Rightarrow> if d = 0 then 5 else d | None \<Rightarrow> 5)\<rparr>"

definition default_options :: SelectorOptions where
  "default_options =
     \<lparr>opt_ignoreAttributes = None, opt_preferredAttributes = None, opt_maxDepth = None\<rparr>"

definition isUnique :: "Document \<Rightarrow> nat \<Rightarrow> string \<Rightarrow> bool" where
  "isUnique doc element selector =
     (case doc_querySelectorAll doc selector of
        None \<Rightarrow> False
      | Some matches \<Rightarrow> (case matches of [m] \<Rightarrow> m = element | _ \<Rightarrow> False))"

text \<open>\<open>value.replace(/^(react-|vue-|ng-|svelte-)/, "")\<close>.\<close>

definition cleanAttributeValue :: "string \<Rightarrow> string" where
  "cleanAttributeValue v =
     (if startsWith v ''react-'' then drop 6 v
      else if startsWith v ''vue-'' then drop 4 v
      else if startsWith v ''ng-'' then drop 3 v
      else if startsWith v ''svelte-'' then drop 7 v
      else v)"

fun attribute_loop :: "Document \<Rightarrow> nat \<Rightarrow> string list \<Rightarrow> string option" where
  "attribute_loop doc element [] = None"
| "attribute_loop doc element (attr # attrs) =
     (case doc_getAttribute doc element attr of
        None \<Rightarrow> attribute_loop doc element attrs
      | Some v \<Rightarrow>
          if v \<noteq> [] \<and> cleanAttributeValue v \<noteq> []
          then Some (toLowerCase (doc_tagName doc element) @ ''['' @ attr @ ''=\"''
                       @ cleanAttributeValue v @ ''\"]'')
          else attribute_loop doc element attrs)"

definition getAttributeSelector :: "SelectorEngine \<Rightarrow> Document \<Rightarrow> nat \<Rightarrow> string option" where
  "getAttributeSelector eng doc element = attribute_loop doc element (preferredAttributes eng)"

text \<open>\<open>/^[a-z]+-[a-f0-9]{6,}$/i\<close>: letters, a dash, then six or more hex digits.\<close>

definition is_hash_class :: "string \<Rightarrow> bool" where
  "is_hash_class cls =
     (let letters = takeWhile is_letter cls; rest = dropWhile is_letter cls
      in letters \<noteq> [] \<and>
         (case rest of
            [] \<Rightarrow> False
          | c # hex \<Rightarrow> c = CHR ''-'' \<and> 6 \<le> length hex \<and> list_all is_hex_digit hex))"

definition is_numeric_class :: "string \<Rightarrow> bool" where
  "is_numeric_class cls = (cls \<noteq> [] \<and> list_all is_digit cls)"

definition isMeaningfulClass :: "SelectorEngine \<Rightarrow> string \<Rightarrow> bool" where
  "isMeaningfulClass eng className =
     (if list_ex (\<lambda>pattern. str_includes className pattern) (ignoreAttributes eng) then False
      else if is_hash_class className then False
      else if length className < 3 \<or> is_numeric_class className then False
      else True)"

fun single_class_loop :: "Document \<Rightarrow> nat \<Rightarrow> string list \<Rightarrow> string option" where
  "single_class_loop doc element [] = None"
| "single_class_loop doc element (cls # rest) =
     (let selector = toLowerCase (doc_tagName doc element) @ ''.'' @ cls
      in if isUnique doc element selector then Some selector
         else single_class_loop doc element rest)"

definition getClassSelector :: "SelectorEngine \<Rightarrow> Document \<Rightarrow> nat \<Rightarrow> string option" where
  "getClassSelector eng doc element =
     (let classes = filter (isMeaningfulClass eng) (doc_classList doc element)
      in if length classes = 0 then None
         else (case single_class_loop doc element classes of
                 Some selector \<Rightarrow> Some selector
               | None \<Rightarrow>
                   if length classes > 1
                   then (let selector = toLowerCase (doc_tagName doc element) @ ''.'' @ join ''.'' classes
                         in if isUnique doc element selector then Some selector else None)
                   else None))"

text \<open>One level of the structural path: the tag, indexed among same-tag siblings.\<close>

definition level_selector :: "Document \<Rightarrow> nat \<Rightarrow> string" where
  "level_selector doc current =
     (let selector = toLowerCase (doc_tagName doc current)
      in case doc_parentElement doc current of
           None \<Rightarrow> selector
         | Some parent \<Rightarrow>
             (let siblings = doc_children doc parent
              in if length siblings > 1
                 then (let sameTypeSiblings =
                             filter (\<lambda>s. doc_tagName doc s = doc_tagName doc current) siblings
                       in if length sameTypeSiblings > 1
                          then selector @ '':nth-of-type(''
                                 @ show_int (indexOf sameTypeSiblings current + 1) @ '')''
                          else selector)
                 else selector))"

function structural_loop ::
  "SelectorEngine \<Rightarrow> Document \<Rightarrow> nat option \<Rightarrow> int \<Rightarrow> string list \<Rightarrow> string list" where
  "structural_loop eng doc current depth path =
     (case current of
        None \<Rightarrow> path
      | Some c \<Rightarrow>
          if c \<noteq> doc_documentElement doc \<and> depth < maxDepth eng
          then structural_loop eng doc (doc_parentElement doc c) (depth + 1)
                 (level_selector doc c # path)
          else path)"
  by pat_completeness auto
termination
  by (relation "measure (\<lambda>(eng, doc, current, depth, path). nat (maxDepth eng - depth))") auto

definition getStructuralPath :: "SelectorEngine \<Rightarrow> Document \<Rightarrow> nat \<Rightarrow> string" where
  "getStructuralPath eng doc element = join '' > '' (structural_loop eng doc (Some element) 0 [])"

datatype tier = AttributeTier | ClassTier | StructuralTier

text \<open>\<open>generate\<close>, with the tier that produced the selector noted beside it.\<close>

definition generate_tier :: "SelectorEngine \<Rightarrow> Document \<Rightarrow> nat \<Rightarrow> tier \<times> string" where
  "generate_tier eng doc element =
     (case getAttributeSelector eng doc element of
        Some attributeSelector \<Rightarrow>
          if attributeSelector \<noteq> [] \<and> isUnique doc element attributeSelector
          then (AttributeTier, attributeSelector)
          else (case getClassSelector eng doc element of
                  Some classSelector \<Rightarrow>
                    if classSelector \<noteq> [] \<and> isUnique doc element classSelector
                    then (ClassTier, classSelector)
                    else (StructuralTier, getStructuralPath eng doc element)
                | None \<Rightarrow> (StructuralTier, getStructuralPath eng doc element))
      | None \<Rightarrow>
          (case getClassSelector eng doc element of
             Some classSelector \<Rightarrow>
               if classSelector \<noteq> [] \<and> isUnique doc element classSelector
               then (ClassTier, classSelector)
               else (StructuralTier, getStructuralPath eng doc element)
           | None \<Rightarrow> (StructuralTier, getStructuralPath eng doc element)))"

definition generate :: "SelectorEngine \<Rightarrow> Document \<Rightarrow> nat \<Rightarrow> string" where
  "generate eng doc element = snd (generate_tier eng doc element)"

text \<open>
  A page of three elements: \<open><html lang="en">\<close> (element 0) with children \<open><head>\<close>
  (element 1) and \<open><body>\<close> (element 2); no element has a class or a preferred attribute.
\<close>

definition bare_page :: Document where
  "bare_page =
     \<lparr>doc_tagName = (\<lambda>e. if e = 0 then ''HTML'' else if e = 1 then ''HEAD'' else ''BODY''),
      doc_getAttribute = (\<lambda>e a. if e = 0 \<and> a = ''lang'' then Some ''en'' else None),
      doc_classList = (\<lambda>e. []),
      doc_parentElement = (\<lambda>e. if e = 0 then None else Some 0),
      doc_children = (\<lambda>e. if e = 0 then [1, 2] else []),
      doc_documentElement = 0,
      doc_querySelectorAll =
        (\<lambda>s. if s = ''html'' then Some [0] else if s = ''head'' then Some [1]
              else if s = ''body'' then Some [2] else Some [])\<rparr>"

text \<open>The same page with \<open><body id="app">\<close>.\<close>

definition app_page :: Document where
  "app_page =
     bare_page
       \<lparr>doc_getAttribute :=
          (\<lambda>e a. if e = 0 \<and> a = ''lang'' then Some ''en''
                  else if e = 2 \<and> a = ''id'' then Some ''app'' else None),
        doc_querySelectorAll :=
          (\<lambda>s. if s = ''html'' then Some [0] else if s = ''head'' then Some [1]
                else if s = ''body'' \<or> s = ''body[id=\"app\"]'' then Some [2] else Some [])\<rparr>"

section \<open>Mutation compression (dom-diff module and its inline copy)\<close>

text \<open>
  A mutation target is a node; \<open>target instanceof Element\<close> holds for \<open>ElementNode\<close> only
  (a document, a shadow root or a text node is an \<open>OtherNode\<close>).
\<close>

datatype node = ElementNode nat | OtherNode nat

record MutationRecord =
  mr_type :: string
  mr_attributeName :: "string option"
  mr_target :: node

record compress_state =
  cs_affectedElements :: "nat list"
  cs_hasAttributeChanges :: bool
  cs_hasChildListChanges :: bool
  cs_hasClassChanges :: bool

record CompressedIntent =
  intent :: string
  summary :: string
  affectedElements :: nat

text \<open>\<open>Set.add\<close>, the set kept as the list of its members in insertion order.\<close>

definition set_add :: "'a \<Rightarrow> 'a list \<Rightarrow> 'a list" where
  "set_add x s = (if x \<in> set s then s else s @ [x])"

definition add_target :: "node \<Rightarrow> nat list \<Rightarrow> nat list" where
  "add_target target s = (case target of ElementNode e \<Rightarrow> set_add e s | OtherNode n \<Rightarrow> s)"

definition compress_step :: "compress_state \<Rightarrow> MutationRecord \<Rightarrow> compress_state" where
  "compress_step st mutation =
     (let st1 = st\<lparr>cs_affectedElements := add_target (mr_target mutation) (cs_affectedElements st)\<rparr>
      in if mr_type mutation = ''attributes''
         then (let st2 = st1\<lparr>cs_hasAttributeChanges := True\<rparr>
               in if mr_attributeName mutation = Some ''class''
                  then st2\<lparr>cs_hasClassChanges := True\<rparr> else st2)
         else if mr_type mutation = ''childList''
         then st1\<lparr>cs_hasChildListChanges := True\<rparr>
         else st1)"

definition compress_init :: compress_state where
  "compress_init =
     \<lparr>cs_affectedElements = [], cs_hasAttributeChanges = False,
      cs_hasChildListChanges = False, cs_hasClassChanges = False\<rparr>"

definition compressMutations :: "MutationRecord list \<Rightarrow> CompressedIntent" where
  "compressMutations mutations =
     (let st = foldl compress_step compress_init mutations;
          size = length (cs_affectedElements st)
      in \<lparr>intent =
            (if cs_hasClassChanges st \<and> \<not> cs_hasChildListChanges st then ''style-change''
             else if cs_hasChildListChanges st \<and> size = 1 then ''content-update''
             else if cs_hasChildListChanges st \<and> size > 1 then ''dom-restructure''
             else if cs_hasAttributeChanges st then ''attribute-change''
             else ''unknown''),
          summary = show_nat (length mutations) @ '' mutations on '' @ show_nat size @ '' elements'',
          affectedElements = size\<rparr>)"

text \<open>The copy of \<open>compressMutations\<close> that the instrumentation script injects into the page.\<close>

record inline_state =
  is_affected :: "nat list"
  is_hasClass :: bool
  is_hasChild :: bool

definition inline_step :: "inline_state \<Rightarrow> MutationRecord \<Rightarrow> inline_state" where
  "inline_step st m =
     (let st1 = st\<lparr>is_affected := add_target (mr_target m) (is_affected st)\<rparr>;
          st2 = (if mr_type m = ''attributes'' \<and> mr_attributeName m = Some ''class''
                 then st1\<lparr>is_hasClass := True\<rparr> else st1)
      in if mr_type m = ''childList'' then st2\<lparr>is_hasChild := True\<rparr> else st2)"

definition compressMutations_inline :: "MutationRecord list \<Rightarrow> CompressedIntent" where
  "compressMutations_inline mutations =
     (let st = foldl inline_step \<lparr>is_affected = [], is_hasClass = False, is_hasChild = False\<rparr> mutations;
          size = length (is_affected st)
      in \<lparr>intent =
            (if is_hasClass st \<and> \<not> is_hasChild st then ''style-change''
             else if is_hasChild st \<and> size = 1 then ''content-update''
             else if is_hasChild st then ''dom-restructure''
             else ''unknown''),
          summary = show_nat (length mutations) @ '' mutations on '' @ show_nat size @ '' elements'',
          affectedElements = size\<rparr>)"

text \<open>The classification as the specification words it.\<close>

definition affected :: "MutationRecord list \<Rightarrow> nat set" where
  "affected batch = {e. \<exists>m\<in>set batch. mr_target m = ElementNode e}"

definition hasClassChange :: "MutationRecord list \<Rightarrow> bool" where
  "hasClassChange batch =
     list_ex (\<lambda>m. mr_type m = ''attributes'' \<and> mr_attributeName m = Some ''class'') batch"

definition hasChildListChange :: "MutationRecord list \<Rightarrow> bool" where
  "hasChildListChange batch = list_ex (\<lambda>m. mr_type m = ''childList'') batch"

definition hasOtherAttributeChange :: "MutationRecord list \<Rightarrow> bool" where
  "hasOtherAttributeChange batch =
     list_ex (\<lambda>m. mr_type m = ''attributes'' \<and> mr_attributeName m \<noteq> Some ''class'') batch"

definition classify_spec :: "MutationRecord list \<Rightarrow> string" where
  "classify_spec batch =
     (if hasClassChange batch \<and> \<not> hasChildListChange batch then ''style-change''
      else if hasChildListChange batch \<and> card (affected batch) = 1 then ''content-update''
      else if hasChildListChange batch \<and> card (affected batch) > 1 then ''dom-restructure''
      else if hasOtherAttributeChange batch then ''attribute-change''
      else ''unknown'')"

text \<open>In the DOM an \<open>attributes\<close> record always has the element whose attribute changed as target.\<close>

definition well_formed_batch :: "MutationRecord list \<Rightarrow> bool" where
  "well_formed_batch batch =
     list_all (\<lambda>m. mr_type m = ''attributes'' \<longrightarrow> (case mr_target m of ElementNode e \<Rightarrow> True | OtherNode n \<Rightarrow> False))
       batch"

definition attribute_mutation :: "string \<Rightarrow> nat \<Rightarrow> MutationRecord" where
  "attribute_mutation name e =
     \<lparr>mr_type = ''attributes'', mr_attributeName = Some name, mr_target = ElementNode e\<rparr>"

definition childList_mutation :: "nat \<Rightarrow> MutationRecord" where
  "childList_mutation e =
     \<lparr>mr_type = ''childList'', mr_attributeName = None, mr_target = ElementNode e\<rparr>"

section \<open>Numbers: \<open>parseFloat\<close> and the double arithmetic of the significance test\<close>

text \<open>
  A JavaScript number is an IEEE 754 binary64 value. \<open>Finite m e\<close> stands for the
  representable value \<open>m * 2 ^ e\<close> (the sign of zero is dropped: subtraction, \<open>Math.abs\<close>
  and \<open>>=\<close> do not observe it). Every operation computes the exact result and rounds it
  to the nearest representable value, ties to even, overflowing to an infinity.
\<close>

datatype double = NaN | PosInf | NegInf | Finite int int

text \<open>The number of binary digits of a natural number.\<close>

fun bitlen :: "nat \<Rightarrow> nat" where
  "bitlen n = (if n = 0 then 0 else Suc (bitlen (n div 2)))"

text \<open>\<open>2 ^ e \<le> p / q\<close>.\<close>

definition at_least_pow2 :: "nat \<Rightarrow> nat \<Rightarrow> int \<Rightarrow> bool" where
  "at_least_pow2 p q e = (if 0 \<le> e then q * 2 ^ nat e \<le> p else q \<le> p * 2 ^ nat (- e))"

text \<open>
  The double nearest to \<open>p / q\<close> (negated when \<open>neg\<close>): \<open>e\<close> is the binary exponent of
  \<open>p / q\<close>, \<open>2 ^ t\<close> the spacing of the doubles around it (53 significant bits, the
  subnormal spacing \<open>2 ^ -1074\<close> below \<open>2 ^ -1022\<close>).
\<close>

definition round_ratio :: "bool \<Rightarrow> nat \<Rightarrow> nat \<Rightarrow> double" where
  "round_ratio neg p q =
     (if p = 0 then Finite 0 0
      else (let e0 = int (bitlen p) - int (bitlen q);
                e = (if at_least_pow2 p q e0 then e0 else e0 - 1);
                t = max (e - 52) (- 1074);
                num = (if t < 0 then p * 2 ^ nat (- t) else p);
                den = (if t < 0 then q else q * 2 ^ nat t);
                m = num div den;
                r = num mod den;
                n = (if 2 * r < den then m
                     else if den < 2 * r then m + 1
                     else if even m then m else m + 1)
            in if 0 \<le> t \<and> 2 ^ 1024 \<le> n * 2 ^ nat t
               then (if neg then NegInf else PosInf)
               else Finite (if neg then - int n else int n) t))"

text \<open>The double nearest to \<open>d * 10 ^ k\<close>: the value of a decimal literal.\<close>

definition decimal_to_double :: "bool \<Rightarrow> nat \<Rightarrow> int \<Rightarrow> double" where
  "decimal_to_double neg d k =
     (if 0 \<le> k then round_ratio neg (d * 10 ^ nat k) 1 else round_ratio neg d (10 ^ nat (- k)))"

definition d_sub :: "double \<Rightarrow> double \<Rightarrow> double" where
  "d_sub x y =
     (case x of
        NaN \<Rightarrow> NaN
      | PosInf \<Rightarrow> (case y of NaN \<Rightarrow> NaN | PosInf \<Rightarrow> NaN | _ \<Rightarrow> PosInf)
      | NegInf \<Rightarrow> (case y of NaN \<Rightarrow> NaN | NegInf \<Rightarrow> NaN | _ \<Rightarrow> NegInf)
      | Finite m1 e1 \<Rightarrow>
          (case y of
             NaN \<Rightarrow> NaN
           | PosInf \<Rightarrow> NegInf
           | NegInf \<Rightarrow> PosInf
           | Finite m2 e2 \<Rightarrow>
               (let e = min e1 e2;
                    d = m1 * 2 ^ nat (e1 - e) - m2 * 2 ^ nat (e2 - e)
                in if 0 \<le> e then round_ratio (d < 0) (nat \<bar>d\<bar> * 2 ^ nat e) 1
                   else round_ratio (d < 0) (nat \<bar>d\<bar>) (2 ^ nat (- e)))))"

definition d_abs :: "double \<Rightarrow> double" where
  "d_abs x = (case x of NaN \<Rightarrow> NaN | PosInf \<Rightarrow> PosInf | NegInf \<Rightarrow> PosInf | Finite m e \<Rightarrow> Finite \<bar>m\<bar> e)"

definition d_ge :: "double \<Rightarrow> double \<Rightarrow> bool" where
  "d_ge x y =
     (case x of
        NaN \<Rightarrow> False
      | PosInf \<Rightarrow> y \<noteq> NaN
      | NegInf \<Rightarrow> y = NegInf
      | Finite m1 e1 \<Rightarrow>
          (case y of
             NaN \<Rightarrow> False
           | PosInf \<Rightarrow> False
           | NegInf \<Rightarrow> True
           | Finite m2 e2 \<Rightarrow>
               (let e = min e1 e2 in m2 * 2 ^ nat (e2 - e) \<le> m1 * 2 ^ nat (e1 - e))))"

text \<open>
  \<open>parseFloat\<close>: skip leading white space, read the longest prefix that is a decimal
  literal (sign, \<open>Infinity\<close> or digits with an optional fraction and exponent), \<open>NaN\<close>
  when there is none.
\<close>

definition is_white_space :: "char \<Rightarrow> bool" where
  "is_white_space c = ((of_char c :: nat) \<in> {9, 10, 11, 12, 13, 32, 160})"

definition digit_value :: "char \<Rightarrow> nat" where
  "digit_value c = of_char c - 48"

fun digits_value :: "nat \<Rightarrow> string \<Rightarrow> nat" where
  "digits_value acc [] = acc"
| "digits_value acc (c # cs) = digits_value (acc * 10 + digit_value c) cs"

definition signed_digits :: "bool \<Rightarrow> string \<Rightarrow> int" where
  "signed_digits neg s =
     (let ds = takeWhile is_digit s
      in if ds = [] then 0 else if neg then - int (digits_value 0 ds) else int (digits_value 0 ds))"

definition parse_exponent :: "string \<Rightarrow> int" where
  "parse_exponent s =
     (case s of
        [] \<Rightarrow> 0
      | c # r \<Rightarrow>
          if c = CHR ''e'' \<or> c = CHR ''E''
          then (case r of
                  [] \<Rightarrow> 0
                | d # r' \<Rightarrow>
                    if d = CHR ''+'' then signed_digits False r'
                    else if d = CHR ''-'' then signed_digits True r'
                    else signed_digits False r)
          else 0)"

definition parse_unsigned :: "bool \<Rightarrow> string \<Rightarrow> double" where
  "parse_unsigned neg s =
     (if startsWith s ''Infinity'' then (if neg then NegInf else PosInf)
      else (let ip = takeWhile is_digit s; r1 = dropWhile is_digit s
            in if startsWith r1 ''.''
               then (let fp = takeWhile is_digit (tl r1); r2 = dropWhile is_digit (tl r1)
                     in if ip = [] \<and> fp = [] then NaN
                        else decimal_to_double neg (digits_value 0 (ip @ fp))
                               (parse_exponent r2 - int (length fp)))
               else if ip = [] then NaN
               else decimal_to_double neg (digits_value 0 ip) (parse_exponent r1)))"

definition parseFloat :: "string \<Rightarrow> double" where
  "parseFloat s =
     (let t = dropWhile is_white_space s
      in case t of
           [] \<Rightarrow> NaN
         | c # r \<Rightarrow>
             if c = CHR ''+'' then parse_unsigned False r
             else if c = CHR ''-'' then parse_unsigned True r
             else parse_unsigned False t)"

definition isNaN :: "double \<Rightarrow> bool" where
  "isNaN d = (d = NaN)"

text \<open>The rational number a finite double stands for.\<close>

definition dval :: "double \<Rightarrow> rat" where
  "dval d = (case d of Finite m e \<Rightarrow> of_int m * 2 powi e | _ \<Rightarrow> 0)"

text \<open>The integer nearest to a rational, a tie going to the even neighbour.\<close>

definition round_half_even :: "rat \<Rightarrow> int" where
  "round_half_even y =
     (let m = \<lfloor>y\<rfloor>; f = y - of_int m
      in if f < 1 / 2 then m else if 1 / 2 < f then m + 1 else if even m then m else m + 1)"

section \<open>Style diff (dom-diff module)\<close>

definition MEANINGFUL_STYLE_PROPERTIES :: "string list" where
  "MEANINGFUL_STYLE_PROPERTIES =
     [''display'', ''visibility'', ''opacity'', ''transform'', ''transition'', ''animation'',
      ''position'', ''top'', ''left'', ''right'', ''bottom'', ''width'', ''height'', ''z-index'',
      ''overflow'', ''clip-path'', ''filter'', ''backdrop-filter'']"

definition size_properties :: "string list" where
  "size_properties = [''width'', ''height'', ''top'', ''left'', ''right'', ''bottom'']"

text \<open>The literals \<open>1\<close> and \<open>0.01\<close> of the source.\<close>

definition one_px :: double where
  "one_px = decimal_to_double False 1 0"

definition one_percent :: double where
  "one_percent = decimal_to_double False 1 (- 2)"

definition isSignificantChange :: "string \<Rightarrow> string \<Rightarrow> string \<Rightarrow> bool" where
  "isSignificantChange property from to =
     (if from = [] \<and> to = [] then False
      else if property \<in> set size_properties
              \<and> \<not> isNaN (parseFloat from) \<and> \<not> isNaN (parseFloat to)
      then d_ge (d_abs (d_sub (parseFloat to) (parseFloat from))) one_px
      else if property = ''opacity''
              \<and> \<not> isNaN (parseFloat from) \<and> \<not> isNaN (parseFloat to)
      then d_ge (d_abs (d_sub (parseFloat to) (parseFloat from))) one_percent
      else True)"

text \<open>
  A \<open>CSSStyleDeclaration\<close> read through \<open>getPropertyValue\<close>: a function from property
  names to values, the empty string for a property that is not set.
\<close>

type_synonym CSSStyleDeclaration = "string \<Rightarrow> string"

record StyleDiff =
  sd_selector :: string
  sd_changes :: "PropChange js_record"

definition style_step ::
  "CSSStyleDeclaration \<Rightarrow> CSSStyleDeclaration \<Rightarrow> PropChange js_record \<Rightarrow> string \<Rightarrow> PropChange js_record" where
  "style_step beforeStyles afterStyles changes prop =
     (let before = beforeStyles prop; after = afterStyles prop
      in if before \<noteq> after \<and> isSignificantChange prop before after
         then AList.update prop \<lparr>pc_from = before, pc_to = after\<rparr> changes
         else changes)"

definition computeStyleDiff ::
  "nat \<Rightarrow> CSSStyleDeclaration \<Rightarrow> CSSStyleDeclaration \<Rightarrow> StyleDiff option" where
  "computeStyleDiff element beforeStyles afterStyles =
     (let changes = foldl (style_step beforeStyles afterStyles) [] MEANINGFUL_STYLE_PROPERTIES
      in if length changes = 0 then None
         else Some \<lparr>sd_selector = [], sd_changes = changes\<rparr>)"

text \<open>A style declaration with a single property set.\<close>

definition single_style :: "string \<Rightarrow> string \<Rightarrow> CSSStyleDeclaration" where
  "single_style name v = (\<lambda>prop. if prop = name then v else [])"

section \<open>Properties of profile extraction\<close>

lemma set_first_occ [simp]: "set (first_occ xs) = set xs"
  by (induction xs) auto

lemma distinct_first_occ [simp]: "distinct (first_occ xs)"
  by (induction xs) auto

lemma first_occ_snoc:
  "first_occ (xs @ [x]) = (if x \<in> set xs then first_occ xs else first_occ xs @ [x])"
proof (induction xs)
  case Nil
  then show ?case by simp
next
  case (Cons a xs)
  have "filter (\<lambda>y. y \<noteq> a) (first_occ xs) = first_occ xs" if "a \<notin> set xs"
    using that by (auto simp: filter_id_conv)
  then show ?case using Cons by auto
qed

lemma map_of_changed_aux:
  "map_of (foldl (prop_step b a) acc ks) k =
     (if k \<in> set ks \<and> map_of b k \<noteq> map_of a k
      then Some \<lparr>pc_from = str_or (map_of b k) [], pc_to = str_or (map_of a k) []\<rparr>
      else map_of acc k)"
  by (induction ks arbitrary: acc) (auto simp: prop_step_def AList.update_conv')

lemma map_of_changed_properties:
  "map_of (changed_properties b a) k =
     (if map_of a k \<noteq> None \<and> map_of b k \<noteq> map_of a k
      then Some \<lparr>pc_from = str_or (map_of b k) [], pc_to = str_or (map_of a k) []\<rparr>
      else None)"
  unfolding changed_properties_def map_of_changed_aux
  by (auto simp: map_of_eq_None_iff image_iff)

lemma update_map_keys:
  "distinct ks \<Longrightarrow> s \<in> set ks \<Longrightarrow>
   AList.update s v (map (\<lambda>k. (k, f k)) ks) = map (\<lambda>k. (k, if k = s then v else f k)) ks"
  by (induction ks) auto

lemma update_map_fresh:
  "s \<notin> set ks \<Longrightarrow> AList.update s v (map (\<lambda>k. (k, f k)) ks) = map (\<lambda>k. (k, f k)) ks @ [(s, v)]"
  by (induction ks) auto

lemma update_map_last:
  "s \<notin> set ks \<Longrightarrow>
   AList.update s v (map (\<lambda>k. (k, f k)) ks @ [(s, w)]) = map (\<lambda>k. (k, f k)) ks @ [(s, v)]"
  by (induction ks) auto

lemma map_of_map_last:
  "s \<notin> set ks \<Longrightarrow> map_of (map (\<lambda>k. (k, f k)) ks @ [(s, w)]) s = Some w"
  by (induction ks) auto

lemma map_of_map_keys: "map_of (map (\<lambda>k. (k, f k)) ks) s = (if s \<in> set ks then Some (f s) else None)"
  by (induction ks) auto

lemma groups_spec_snoc: "groups_spec (ts @ [t]) = group_step (groups_spec ts) t"
proof (cases "trace_selector t")
  case None
  then have "group_step (groups_spec ts) t = groups_spec ts"
    by (auto simp: group_step_def trace_selector_def split: option.splits if_splits)
  moreover have "groups_spec (ts @ [t]) = groups_spec ts"
    using None by (simp add: groups_spec_def List.map_filter_def)
  ultimately show ?thesis by simp
next
  case (Some s)
  then obtain ev where ev: "tr_event t = Some ev" "tr_type t = ''interaction''" "ev_selector ev = s"
    by (auto simp: trace_selector_def split: if_splits)
  let ?ks = "first_occ (List.map_filter trace_selector ts)"
  let ?f = "\<lambda>k. filter (\<lambda>t. trace_selector t = Some k) ts"
  have mf: "List.map_filter trace_selector (ts @ [t]) = List.map_filter trace_selector ts @ [s]"
    using Some by (simp add: List.map_filter_def)
  show ?thesis
  proof (cases "s \<in> set ?ks")
    case True
    then have "groups_spec (ts @ [t]) = map (\<lambda>k. (k, if k = s then ?f s @ [t] else ?f k)) ?ks"
      using Some by (auto simp: groups_spec_def mf first_occ_snoc)
    moreover have "group_step (groups_spec ts) t = AList.update s (?f s @ [t]) (map (\<lambda>k. (k, ?f k)) ?ks)"
      using True ev by (simp add: group_step_def groups_spec_def map_of_map_keys)
    ultimately show ?thesis using True by (simp add: update_map_keys)
  next
    case False
    then have nil: "?f s = []"
      by (auto simp: filter_empty_conv List.map_filter_def image_iff)
    have "groups_spec (ts @ [t]) = map (\<lambda>k. (k, ?f k)) ?ks @ [(s, [t])]"
      using Some False nil by (auto simp: groups_spec_def mf first_occ_snoc)
    moreover have "group_step (groups_spec ts) t = map (\<lambda>k. (k, ?f k)) ?ks @ [(s, [t])]"
    proof -
      have m: "AList.update s [] (groups_spec ts) = groups_spec ts @ [(s, [])]"
        unfolding groups_spec_def using False by (rule update_map_fresh)
      have g: "map_of (groups_spec ts @ [(s, [])]) s = Some []"
        unfolding groups_spec_def using False by (rule map_of_map_last)
      have u: "AList.update s [t] (groups_spec ts @ [(s, [])])
                 = groups_spec ts @ [(s, [t])]"
        unfolding groups_spec_def using False by (simp add: update_map_last)
      have n: "map_of (groups_spec ts) s = None"
        using False by (simp add: groups_spec_def map_of_map_keys)
      have "group_step (groups_spec ts) t = groups_spec ts @ [(s, [t])]"
        unfolding group_step_def using ev n
        by (simp add: Let_def m g u del: map_of_append)
      then show ?thesis by (simp add: groups_spec_def)
    qed
    ultimately show ?thesis by simp
  qed
qed

lemma group_by_selector_spec: "group_by_selector traces = groups_spec traces"
proof (induction traces rule: rev_induct)
  case Nil
  then show ?case by (simp add: group_by_selector_def groups_spec_def List.map_filter_def)
next
  case (snoc t ts)
  then show ?case by (simp add: group_by_selector_def groups_spec_snoc)
qed

lemmas example_defs = example_trace_def example_snapshot_def extractProfiles_def
  group_by_selector_def group_step_def group_profiles_def findConsistentStyleChanges_def
  trace_changes_def changed_properties_def prop_step_def profile_name_def str_or_def pop_def

text \<open>
  The click on \<open>button.cta\<close> of the end-to-end scenario is not named \<open>click-on-cta\<close>:
  the name ends with the last space-separated token of the selector, here the whole
  selector.
\<close>

theorem cta_profile_name_counterexample:
  "\<not> (map ap_name (extractProfiles [cta_trace]) = [''click-on-cta''])"
  by (simp add: cta_trace_def example_defs)

text \<open>
  A record whose diff has the key \<open>transition\<close> and whose after style has no
  \<open>transition-delay\<close>: the timing object carries the delay \<open>0s\<close>, it is not left out.
\<close>

theorem transition_delay_counterexample:
  "map_of (style_computed (snap_style (example_snapshot [(''transition'', ''all 0.3s ease 0s'')])))
      ''transition-delay'' = None
   \<and> map (map_option delay \<circ> eff_timing \<circ> ap_effect) (extractProfiles [transition_trace])
       = [Some (Some ''0s'')]"
  by (simp add: transition_trace_def example_defs)

lemma extractProfiles_grouped:
  "extractProfiles traces =
     concat (map (\<lambda>s. group_profiles (s, filter (\<lambda>t. trace_selector t = Some s) traces))
                 (first_occ (List.map_filter trace_selector traces)))"
  by (simp add: extractProfiles_def group_by_selector_spec groups_spec_def comp_def)

lemma in_extractProfilesD:
  assumes "p \<in> set (extractProfiles traces)"
  shows "\<exists>t\<in>set traces. \<exists>c\<in>set (trace_changes t).
           ap_trigger p = sc_trigger c \<and> ap_effect p = sc_effect c"
proof -
  from assms obtain s c t where "t \<in> set traces" "c \<in> set (trace_changes t)"
    "p = \<lparr>ap_name = profile_name (trig_event (sc_trigger c)) s,
          ap_trigger = sc_trigger c, ap_effect = sc_effect c\<rparr>"
    unfolding extractProfiles_grouped
    by (auto simp: group_profiles_def findConsistentStyleChanges_def)
  then show ?thesis by force
qed

lemma trace_changesD:
  assumes "c \<in> set (trace_changes t)"
  shows "\<exists>ev b a. tr_event t = Some ev \<and> tr_before t = Some b \<and> tr_after t = Some a
           \<and> eff_properties (sc_effect c)
               = changed_properties (style_computed (snap_style b)) (style_computed (snap_style a))
           \<and> eff_properties (sc_effect c) \<noteq> []
           \<and> eff_timing (sc_effect c)
               = (if map_of (eff_properties (sc_effect c)) ''transition'' \<noteq> None
                  then Some \<lparr>duration = str_or (map_of (style_computed (snap_style a)) ''transition-duration'') ''0s'',
                             easing = Some (str_or (map_of (style_computed (snap_style a)) ''transition-timing-function'') ''ease''),
                             delay = Some (str_or (map_of (style_computed (snap_style a)) ''transition-delay'') ''0s'')\<rparr>
                  else None)"
proof (cases "tr_event t")
  case None
  with assms show ?thesis by (simp add: trace_changes_def)
next
  case ev: (Some ev)
  show ?thesis
  proof (cases "tr_before t")
    case None
    with assms ev show ?thesis by (simp add: trace_changes_def)
  next
    case b: (Some b)
    show ?thesis
    proof (cases "tr_after t")
      case None
      with assms ev b show ?thesis by (simp add: trace_changes_def)
    next
      case a: (Some a)
      show ?thesis
        using assms unfolding trace_changes_def ev b a
        by (auto simp: Let_def split: if_splits)
    qed
  qed
qed

lemma map_of_keys_iff: "map_of xs k \<noteq> None \<longleftrightarrow> k \<in> fst ` set xs"
  by (simp add: map_of_eq_None_iff)

lemma trace_changes_qualifying:
  assumes "tr_event t = Some ev" and "tr_before t = Some b" and "tr_after t = Some a"
    and "changed_properties (style_computed (snap_style b)) (style_computed (snap_style a)) \<noteq> []"
  shows "\<exists>c. trace_changes t = [c]
           \<and> sc_trigger c = \<lparr>trig_event = ev_kind ev, trig_selector = ev_selector ev\<rparr>
           \<and> eff_properties (sc_effect c)
               = changed_properties (style_computed (snap_style b)) (style_computed (snap_style a))
           \<and> eff_timing (sc_effect c)
               = (if ''transition'' \<in> fst ` set (eff_properties (sc_effect c))
                  then Some \<lparr>duration = str_or (map_of (style_computed (snap_style a)) ''transition-duration'') ''0s'',
                             easing = Some (str_or (map_of (style_computed (snap_style a)) ''transition-timing-function'') ''ease''),
                             delay = Some (str_or (map_of (style_computed (snap_style a)) ''transition-delay'') ''0s'')\<rparr>
                  else None)"
  using assms
  by (auto simp: trace_changes_def Let_def map_of_eq_None_iff weak_map_of_SomeI
      dest: map_of_SomeD intro: rev_image_eqI)

lemma in_extractProfilesI:
  assumes "t \<in> set traces" and "trace_selector t = Some s" and "c \<in> set (trace_changes t)"
  shows "\<lparr>ap_name = profile_name (trig_event (sc_trigger c)) s,
           ap_trigger = sc_trigger c, ap_effect = sc_effect c\<rparr> \<in> set (extractProfiles traces)"
proof -
  have "s \<in> set (List.map_filter trace_selector traces)"
    using assms(1,2) by (force simp: List.map_filter_def)
  moreover have "t \<in> set (filter (\<lambda>t. trace_selector t = Some s) traces)"
    using assms(1,2) by simp
  ultimately show ?thesis
    unfolding extractProfiles_grouped using assms(3)
    by (force simp: group_profiles_def findConsistentStyleChanges_def)
qed

text \<open>
  C6 (amended). Every interaction record with an event, both snapshots and a non-empty
  diff yields a profile with its trigger and its diff, and the profile carries a timing
  object if and only if the diff has the key \<open>transition\<close>; then the duration is the
  after style's \<open>transition-duration\<close> or \<open>0s\<close>, the easing its
  \<open>transition-timing-function\<close> or \<open>ease\<close>, and the delay its \<open>transition-delay\<close> or
  \<open>0s\<close>: the delay is always present. Conversely every extracted profile comes from
  such a record.
\<close>

theorem timing_of_qualifying_record:
  "(t \<in> set traces \<and> tr_type t = ''interaction'' \<and> tr_event t = Some ev
      \<and> tr_before t = Some b \<and> tr_after t = Some a
      \<and> changed_properties (style_computed (snap_style b)) (style_computed (snap_style a)) \<noteq> []
    \<longrightarrow> (\<exists>p\<in>set (extractProfiles traces).
           ap_trigger p = \<lparr>trig_event = ev_kind ev, trig_selector = ev_selector ev\<rparr>
         \<and> eff_properties (ap_effect p)
             = changed_properties (style_computed (snap_style b)) (style_computed (snap_style a))
         \<and> eff_timing (ap_effect p)
             = (if ''transition'' \<in> fst ` set (eff_properties (ap_effect p))
                then Some \<lparr>duration = str_or (map_of (style_computed (snap_style a)) ''transition-duration'') ''0s'',
                           easing = Some (str_or (map_of (style_computed (snap_style a)) ''transition-timing-function'') ''ease''),
                           delay = Some (str_or (map_of (style_computed (snap_style a)) ''transition-delay'') ''0s'')\<rparr>
                else None)))
   \<and> (q \<in> set (extractProfiles traces)
    \<longrightarrow> (\<exists>r\<in>set traces. \<exists>rb ra.
           tr_before r = Some rb \<and> tr_after r = Some ra
         \<and> eff_properties (ap_effect q)
             = changed_properties (style_computed (snap_style rb)) (style_computed (snap_style ra))
         \<and> (eff_timing (ap_effect q) \<noteq> None
              \<longleftrightarrow> ''transition'' \<in> fst ` set (eff_properties (ap_effect q)))
         \<and> (\<forall>tm. eff_timing (ap_effect q) = Some tm \<longrightarrow>
               duration tm = str_or (map_of (style_computed (snap_style ra)) ''transition-duration'') ''0s''
             \<and> easing tm = Some (str_or (map_of (style_computed (snap_style ra)) ''transition-timing-function'') ''ease'')
             \<and> delay tm = Some (str_or (map_of (style_computed (snap_style ra)) ''transition-delay'') ''0s''))))"
proof (intro conjI impI)
  assume h: "t \<in> set traces \<and> tr_type t = ''interaction'' \<and> tr_event t = Some ev
      \<and> tr_before t = Some b \<and> tr_after t = Some a
      \<and> changed_properties (style_computed (snap_style b)) (style_computed (snap_style a)) \<noteq> []"
  then obtain c where c: "trace_changes t = [c]"
    and tr: "sc_trigger c = \<lparr>trig_event = ev_kind ev, trig_selector = ev_selector ev\<rparr>"
    and pr: "eff_properties (sc_effect c)
               = changed_properties (style_computed (snap_style b)) (style_computed (snap_style a))"
    and tm: "eff_timing (sc_effect c)
               = (if ''transition'' \<in> fst ` set (eff_properties (sc_effect c))
                  then Some \<lparr>duration = str_or (map_of (style_computed (snap_style a)) ''transition-duration'') ''0s'',
                             easing = Some (str_or (map_of (style_computed (snap_style a)) ''transition-timing-function'') ''ease''),
                             delay = Some (str_or (map_of (style_computed (snap_style a)) ''transition-delay'') ''0s'')\<rparr>
                  else None)"
    using trace_changes_qualifying [of t ev b a] by blast
  have sel: "trace_selector t = Some (ev_selector ev)"
    using h by (simp add: trace_selector_def)
  have "c \<in> set (trace_changes t)" using c by simp
  with h sel have "\<lparr>ap_name = profile_name (trig_event (sc_trigger c)) (ev_selector ev),
           ap_trigger = sc_trigger c, ap_effect = sc_effect c\<rparr> \<in> set (extractProfiles traces)"
    by (intro in_extractProfilesI) simp_all
  then show "\<exists>p\<in>set (extractProfiles traces).
           ap_trigger p = \<lparr>trig_event = ev_kind ev, trig_selector = ev_selector ev\<rparr>
         \<and> eff_properties (ap_effect p)
             = changed_properties (style_computed (snap_style b)) (style_computed (snap_style a))
         \<and> eff_timing (ap_effect p)
             = (if ''transition'' \<in> fst ` set (eff_properties (ap_effect p))
                then Some \<lparr>duration = str_or (map_of (style_computed (snap_style a)) ''transition-duration'') ''0s'',
                           easing = Some (str_or (map_of (style_computed (snap_style a)) ''transition-timing-function'') ''ease''),
                           delay = Some (str_or (map_of (style_computed (snap_style a)) ''transition-delay'') ''0s'')\<rparr>
                else None)"
    using tr pr tm by (intro bexI) simp_all
next
  assume q: "q \<in> set (extractProfiles traces)"
  from in_extractProfilesD [OF q] obtain r c where
    r: "r \<in> set traces" and c: "c \<in> set (trace_changes r)" and e: "ap_effect q = sc_effect c"
    by blast
  from trace_changesD [OF c] obtain rb ra where
    ba: "tr_before r = Some rb" "tr_after r = Some ra"
    and pr: "eff_properties (sc_effect c)
               = changed_properties (style_computed (snap_style rb)) (style_computed (snap_style ra))"
    and tm: "eff_timing (sc_effect c)
               = (if map_of (eff_properties (sc_effect c)) ''transition'' \<noteq> None
                  then Some \<lparr>duration = str_or (map_of (style_computed (snap_style ra)) ''transition-duration'') ''0s'',
                             easing = Some (str_or (map_of (style_computed (snap_style ra)) ''transition-timing-function'') ''ease''),
                             delay = Some (str_or (map_of (style_computed (snap_style ra)) ''transition-delay'') ''0s'')\<rparr>
                  else None)"
    by blast
  have iff: "eff_timing (sc_effect c) \<noteq> None
              \<longleftrightarrow> ''transition'' \<in> fst ` set (eff_properties (sc_effect c))"
    unfolding tm map_of_keys_iff by simp
  have vals: "\<forall>tm. eff_timing (sc_effect c) = Some tm \<longrightarrow>
               duration tm = str_or (map_of (style_computed (snap_style ra)) ''transition-duration'') ''0s''
             \<and> easing tm = Some (str_or (map_of (style_computed (snap_style ra)) ''transition-timing-function'') ''ease'')
             \<and> delay tm = Some (str_or (map_of (style_computed (snap_style ra)) ''transition-delay'') ''0s'')"
    unfolding tm by (auto split: if_splits)
  show "\<exists>r\<in>set traces. \<exists>rb ra.
           tr_before r = Some rb \<and> tr_after r = Some ra
         \<and> eff_properties (ap_effect q)
             = changed_properties (style_computed (snap_style rb)) (style_computed (snap_style ra))
         \<and> (eff_timing (ap_effect q) \<noteq> None
              \<longleftrightarrow> ''transition'' \<in> fst ` set (eff_properties (ap_effect q)))
         \<and> (\<forall>tm. eff_timing (ap_effect q) = Some tm \<longrightarrow>
               duration tm = str_or (map_of (style_computed (snap_style ra)) ''transition-duration'') ''0s''
             \<and> easing tm = Some (str_or (map_of (style_computed (snap_style ra)) ''transition-timing-function'') ''ease'')
             \<and> delay tm = Some (str_or (map_of (style_computed (snap_style ra)) ''transition-delay'') ''0s''))"
    using r ba pr iff vals unfolding e by blast
qed

text \<open>The third record of its group, with a \<open>transition\<close> change, gets its profile and timing.\<close>

theorem timing_of_qualifying_record_witness:
  "\<exists>p\<in>set (extractProfiles busy_traces).
       ap_trigger p = \<lparr>trig_event = ''click'', trig_selector = ''button.cta''\<rparr>
     \<and> eff_properties (ap_effect p)
         = [(''transition'', \<lparr>pc_from = ''none'', pc_to = ''all 0.3s ease 0s''\<rparr>)]
     \<and> eff_timing (ap_effect p)
         = Some \<lparr>duration = ''0s'', easing = Some ''ease'', delay = Some ''0s''\<rparr>"
proof -
  let ?ev = "\<lparr>ev_kind = ''click'', ev_selector = ''button.cta''\<rparr>"
  let ?b = "example_snapshot [(''transition'', ''none'')]"
  let ?a = "example_snapshot [(''transition'', ''all 0.3s ease 0s'')]"
  have cp: "changed_properties (style_computed (snap_style ?b)) (style_computed (snap_style ?a))
              = [(''transition'', \<lparr>pc_from = ''none'', pc_to = ''all 0.3s ease 0s''\<rparr>)]"
    by (simp add: example_snapshot_def changed_properties_def prop_step_def str_or_def)
  have h: "transition_trace \<in> set busy_traces \<and> tr_type transition_trace = ''interaction''
      \<and> tr_event transition_trace = Some ?ev
      \<and> tr_before transition_trace = Some ?b \<and> tr_after transition_trace = Some ?a
      \<and> changed_properties (style_computed (snap_style ?b)) (style_computed (snap_style ?a)) \<noteq> []"
    unfolding cp by (simp add: busy_traces_def transition_trace_def example_trace_def)
  from timing_of_qualifying_record [of transition_trace busy_traces ?ev ?b ?a] h
  obtain p where p: "p \<in> set (extractProfiles busy_traces)"
    and tr: "ap_trigger p = \<lparr>trig_event = ev_kind ?ev, trig_selector = ev_selector ?ev\<rparr>"
    and pr: "eff_properties (ap_effect p)
               = changed_properties (style_computed (snap_style ?b)) (style_computed (snap_style ?a))"
    and tm: "eff_timing (ap_effect p)
             = (if ''transition'' \<in> fst ` set (eff_properties (ap_effect p))
                then Some \<lparr>duration = str_or (map_of (style_computed (snap_style ?a)) ''transition-duration'') ''0s'',
                           easing = Some (str_or (map_of (style_computed (snap_style ?a)) ''transition-timing-function'') ''ease''),
                           delay = Some (str_or (map_of (style_computed (snap_style ?a)) ''transition-delay'') ''0s'')\<rparr>
                else None)"
    by blast
  have "eff_timing (ap_effect p) = Some \<lparr>duration = ''0s'', easing = Some ''ease'', delay = Some ''0s''\<rparr>"
    unfolding tm pr cp by (simp add: example_snapshot_def str_or_def)
  with p tr pr cp show ?thesis by (intro bexI [of _ p]) simp_all
qed

text \<open>
  C10. Every key of an extracted profile's properties is a key of the after style of
  the record it comes from, with a different value (or none) in the before style; and
  a record whose after style agrees with the before style on all of the after style's
  keys, whatever else the before style holds, yields no profile.
\<close>

theorem properties_only_after_keys:
  "(p \<in> set (extractProfiles traces) \<longrightarrow>
      (\<exists>t\<in>set traces. \<exists>b a.
          tr_before t = Some b \<and> tr_after t = Some a
        \<and> eff_properties (ap_effect p)
            = changed_properties (style_computed (snap_style b)) (style_computed (snap_style a))
        \<and> (\<forall>k\<in>fst ` set (eff_properties (ap_effect p)).
              k \<in> fst ` set (style_computed (snap_style a))
            \<and> map_of (style_computed (snap_style b)) k \<noteq> map_of (style_computed (snap_style a)) k)))
   \<and> (tr_before r = Some rb \<and> tr_after r = Some ra
        \<and> (\<forall>k\<in>fst ` set (style_computed (snap_style ra)).
              map_of (style_computed (snap_style rb)) k = map_of (style_computed (snap_style ra)) k)
      \<longrightarrow> extractProfiles [r] = [])"
proof (intro conjI impI)
  assume p: "p \<in> set (extractProfiles traces)"
  from in_extractProfilesD [OF p] obtain t c where
    t: "t \<in> set traces" and c: "c \<in> set (trace_changes t)" and e: "ap_effect p = sc_effect c"
    by blast
  from trace_changesD [OF c] obtain b a where
    ba: "tr_before t = Some b" "tr_after t = Some a"
    and pr: "eff_properties (sc_effect c)
               = changed_properties (style_computed (snap_style b)) (style_computed (snap_style a))"
    by blast
  have pr': "eff_properties (ap_effect p)
               = changed_properties (style_computed (snap_style b)) (style_computed (snap_style a))"
    using pr e by simp
  have keys: "\<forall>k\<in>fst ` set (eff_properties (ap_effect p)).
              k \<in> fst ` set (style_computed (snap_style a))
            \<and> map_of (style_computed (snap_style b)) k \<noteq> map_of (style_computed (snap_style a)) k"
  proof
    fix k assume "k \<in> fst ` set (eff_properties (ap_effect p))"
    then have "map_of (changed_properties (style_computed (snap_style b)) (style_computed (snap_style a))) k \<noteq> None"
      unfolding e pr map_of_keys_iff .
    then show "k \<in> fst ` set (style_computed (snap_style a))
            \<and> map_of (style_computed (snap_style b)) k \<noteq> map_of (style_computed (snap_style a)) k"
      unfolding map_of_changed_properties map_of_keys_iff by (simp split: if_splits)
  qed
  from t ba pr' keys show "\<exists>t\<in>set traces. \<exists>b a.
          tr_before t = Some b \<and> tr_after t = Some a
        \<and> eff_properties (ap_effect p)
            = changed_properties (style_computed (snap_style b)) (style_computed (snap_style a))
        \<and> (\<forall>k\<in>fst ` set (eff_properties (ap_effect p)).
              k \<in> fst ` set (style_computed (snap_style a))
            \<and> map_of (style_computed (snap_style b)) k \<noteq> map_of (style_computed (snap_style a)) k)"
    by blast
next
  assume h: "tr_before r = Some rb \<and> tr_after r = Some ra
        \<and> (\<forall>k\<in>fst ` set (style_computed (snap_style ra)).
              map_of (style_computed (snap_style rb)) k = map_of (style_computed (snap_style ra)) k)"
  have "map_of (changed_properties (style_computed (snap_style rb)) (style_computed (snap_style ra))) k = None" for k
    using h unfolding map_of_changed_properties map_of_keys_iff by auto
  then have "changed_properties (style_computed (snap_style rb)) (style_computed (snap_style ra)) = []"
    by (metis map_of_eq_empty_iff)
  then have "trace_changes r = []"
    using h by (simp add: trace_changes_def split: option.splits)
  then show "extractProfiles [r] = []"
    unfolding extractProfiles_grouped
    by (simp add: group_profiles_def findConsistentStyleChanges_def)
qed

theorem properties_only_after_keys_witness:
  "(\<exists>t\<in>set [cta_trace]. \<exists>b a.
          tr_before t = Some b \<and> tr_after t = Some a
        \<and> (\<forall>k\<in>{''transform'', ''opacity''}.
              k \<in> fst ` set (style_computed (snap_style a))
            \<and> map_of (style_computed (snap_style b)) k \<noteq> map_of (style_computed (snap_style a)) k))
   \<and> extractProfiles [vanish_trace] = []"
proof -
  let ?p = "\<lparr>ap_name = ''click-on-button.cta'',
       ap_trigger = \<lparr>trig_event = ''click'', trig_selector = ''button.cta''\<rparr>,
       ap_effect = \<lparr>eff_type = Transition, eff_target = ''button.cta'',
                    eff_properties = [(''transform'', \<lparr>pc_from = ''scale(1)'', pc_to = ''scale(0.95)''\<rparr>),
                                      (''opacity'', \<lparr>pc_from = ''1'', pc_to = ''0.8''\<rparr>)],
                    eff_timing = None\<rparr>\<rparr>"
  have p: "?p \<in> set (extractProfiles [cta_trace])"
    by (simp add: cta_trace_def example_defs)
  have r: "tr_before vanish_trace = Some (example_snapshot [(''transform'', ''scale(1)''), (''filter'', ''blur(2px)'')])
      \<and> tr_after vanish_trace = Some (example_snapshot [(''transform'', ''scale(1)'')])
      \<and> (\<forall>k\<in>fst ` set (style_computed (snap_style (example_snapshot [(''transform'', ''scale(1)'')]))).
            map_of (style_computed (snap_style (example_snapshot [(''transform'', ''scale(1)''), (''filter'', ''blur(2px)'')]))) k
          = map_of (style_computed (snap_style (example_snapshot [(''transform'', ''scale(1)'')]))) k)"
    by (simp add: vanish_trace_def example_trace_def example_snapshot_def)
  from properties_only_after_keys [of ?p "[cta_trace]" vanish_trace
      "example_snapshot [(''transform'', ''scale(1)''), (''filter'', ''blur(2px)'')]"
      "example_snapshot [(''transform'', ''scale(1)'')]"] p r
  have "(\<exists>t\<in>set [cta_trace]. \<exists>b a.
          tr_before t = Some b \<and> tr_after t = Some a
        \<and> eff_properties (ap_effect ?p)
            = changed_properties (style_computed (snap_style b)) (style_computed (snap_style a))
        \<and> (\<forall>k\<in>fst ` set (eff_properties (ap_effect ?p)).
              k \<in> fst ` set (style_computed (snap_style a))
            \<and> map_of (style_computed (snap_style b)) k \<noteq> map_of (style_computed (snap_style a)) k))
     \<and> extractProfiles [vanish_trace] = []"
    by blast
  then show ?thesis by auto
qed

text \<open>
  C1 (amended). One interaction record for selector \<open>button.cta\<close>, kind \<open>click\<close>,
  before style \<open>{transform: scale(1), opacity: 1}\<close>, after style
  \<open>{transform: scale(0.95), opacity: 0.8}\<close> and class lists of equal length yields
  exactly one profile, named \<open>click-on-button.cta\<close>, of type transition, whose properties
  are the two changes, without timing.
\<close>

theorem cta_scenario:
  assumes "tr_type t = ''interaction''" and "tr_event t = Some ev"
    and "ev_kind ev = ''click''" and "ev_selector ev = ''button.cta''"
    and "tr_before t = Some b" and "tr_after t = Some a"
    and "map_of (style_computed (snap_style b)) = [''transform'' \<mapsto> ''scale(1)'', ''opacity'' \<mapsto> ''1'']"
    and "map_of (style_computed (snap_style a)) = [''transform'' \<mapsto> ''scale(0.95)'', ''opacity'' \<mapsto> ''0.8'']"
    and "length (dom_classes (snap_dom a)) = length (dom_classes (snap_dom b))"
  shows "\<exists>p. extractProfiles [t] = [p]
           \<and> ap_name p = ''click-on-button.cta''
           \<and> eff_type (ap_effect p) = Transition
           \<and> map_of (eff_properties (ap_effect p))
               = [''transform'' \<mapsto> \<lparr>pc_from = ''scale(1)'', pc_to = ''scale(0.95)''\<rparr>,
                  ''opacity'' \<mapsto> \<lparr>pc_from = ''1'', pc_to = ''0.8''\<rparr>]
           \<and> eff_timing (ap_effect p) = None"
proof -
  let ?props = "changed_properties (style_computed (snap_style b)) (style_computed (snap_style a))"
  have m: "map_of ?props
             = [''transform'' \<mapsto> \<lparr>pc_from = ''scale(1)'', pc_to = ''scale(0.95)''\<rparr>,
                ''opacity'' \<mapsto> \<lparr>pc_from = ''1'', pc_to = ''0.8''\<rparr>]"
    by (rule ext) (simp add: map_of_changed_properties assms(7,8) str_or_def)
  have "map_of ?props ''opacity'' \<noteq> None" unfolding m by simp
  then have ne: "?props \<noteq> []" by auto
  have an: "map_of ?props ''animation-name'' = None" and tr: "map_of ?props ''transition'' = None"
    unfolding m by simp_all
  have tc: "trace_changes t =
      [\<lparr>sc_trigger = \<lparr>trig_event = ''click'', trig_selector = ''button.cta''\<rparr>,
        sc_effect = \<lparr>eff_type = Transition, eff_target = ''button.cta'',
                     eff_properties = ?props, eff_timing = None\<rparr>\<rparr>]"
    unfolding trace_changes_def using assms(2-6,9) ne an tr by (simp add: Let_def)
  have sel: "trace_selector t = Some ''button.cta''"
    using assms(1,2,4) by (simp add: trace_selector_def)
  have "extractProfiles [t] =
      [\<lparr>ap_name = ''click-on-button.cta'',
        ap_trigger = \<lparr>trig_event = ''click'', trig_selector = ''button.cta''\<rparr>,
        ap_effect = \<lparr>eff_type = Transition, eff_target = ''button.cta'',
                     eff_properties = ?props, eff_timing = None\<rparr>\<rparr>]"
    unfolding extractProfiles_grouped
    by (simp add: sel List.map_filter_def group_profiles_def findConsistentStyleChanges_def tc
          profile_name_def str_or_def pop_def)
  with m show ?thesis by simp
qed

theorem cta_scenario_witness:
  "\<exists>p. extractProfiles [cta_trace] = [p]
           \<and> ap_name p = ''click-on-button.cta''
           \<and> eff_type (ap_effect p) = Transition
           \<and> map_of (eff_properties (ap_effect p))
               = [''transform'' \<mapsto> \<lparr>pc_from = ''scale(1)'', pc_to = ''scale(0.95)''\<rparr>,
                  ''opacity'' \<mapsto> \<lparr>pc_from = ''1'', pc_to = ''0.8''\<rparr>]
           \<and> eff_timing (ap_effect p) = None"
  by (rule cta_scenario [where ev = "\<lparr>ev_kind = ''click'', ev_selector = ''button.cta''\<rparr>"
        and b = "example_snapshot [(''transform'', ''scale(1)''), (''opacity'', ''1'')]"
        and a = "example_snapshot [(''transform'', ''scale(0.95)''), (''opacity'', ''0.8'')]"])
     (auto simp: cta_trace_def example_trace_def example_snapshot_def)

text \<open>
  C8. The profiles are those of the groups, one group per distinct selector in order of
  first appearance, each group holding its records in their original order.
\<close>

theorem extractProfiles_grouping:
  "extractProfiles traces =
     concat (map (\<lambda>s. group_profiles (s, filter (\<lambda>t. trace_selector t = Some s) traces))
                 (first_occ (List.map_filter trace_selector traces)))"
  by (simp add: extractProfiles_def group_by_selector_spec groups_spec_def comp_def)

text \<open>Records for the selectors \<open>a\<close>, \<open>b\<close>, \<open>a\<close>: both profiles of \<open>a\<close> come before the one of \<open>b\<close>.\<close>

theorem extractProfiles_grouping_witness:
  "map (\<lambda>p. (trig_selector (ap_trigger p), map_option pc_to (map_of (eff_properties (ap_effect p)) ''opacity'')))
       (extractProfiles [opacity_trace ''a'' ''0.5'', opacity_trace ''b'' ''0.6'', opacity_trace ''a'' ''0.7''])
     = [(''a'', Some ''0.5''), (''a'', Some ''0.7''), (''b'', Some ''0.6'')]"
  unfolding extractProfiles_grouping [of "[opacity_trace ''a'' ''0.5'', opacity_trace ''b'' ''0.6'', opacity_trace ''a'' ''0.7'']"]
  by (simp add: opacity_trace_def example_trace_def example_snapshot_def trace_selector_def
        List.map_filter_def group_profiles_def findConsistentStyleChanges_def
        trace_changes_def changed_properties_def prop_step_def profile_name_def str_or_def pop_def)

section \<open>Properties of the style diff and of mutation compression\<close>

declare bitlen.simps [simp del]

text \<open>
  The double arithmetic against exact arithmetic: the exponent found through \<open>bitlen\<close>
  brackets the ratio, the rounded quotient is the nearest integer with ties to even, and
  so a rounded difference reaches a threshold exactly when the exact difference reaches
  the midpoint below it.
\<close>

lemma bitlen_bounds: "0 < n \<Longrightarrow> 2 ^ (bitlen n - 1) \<le> n \<and> n < 2 ^ bitlen n"
proof (induction n rule: bitlen.induct)
  case (1 n)
  show ?case
  proof (cases "n div 2 = 0")
    case True
    with "1.prems" have "n = 1" by presburger
    then show ?thesis by (simp add: bitlen.simps)
  next
    case False
    with "1.IH" "1.prems" have ih: "2 ^ (bitlen (n div 2) - 1) \<le> n div 2" "n div 2 < 2 ^ bitlen (n div 2)"
      by auto
    have b: "bitlen n = Suc (bitlen (n div 2))"
      using "1.prems" by (subst bitlen.simps) simp
    have pos: "0 < bitlen (n div 2)"
      using False by (subst bitlen.simps) simp
    then have e1: "(2::nat) ^ bitlen (n div 2) = 2 * 2 ^ (bitlen (n div 2) - 1)"
      by (cases "bitlen (n div 2)") simp_all
    have e2: "(2::nat) ^ (bitlen n - 1) = 2 ^ bitlen (n div 2)"
      and e3: "(2::nat) ^ bitlen n = 2 * 2 ^ bitlen (n div 2)"
      unfolding b by simp_all
    have d: "2 * (n div 2) \<le> n" "n < 2 * (n div 2) + 2"
      by presburger+
    show ?thesis
      unfolding e2 e3 using ih d e1 by linarith
  qed
qed

lemma at_least_pow2_rat:
  assumes "0 < q"
  shows "at_least_pow2 p q e \<longleftrightarrow> (2::rat) powi e \<le> of_nat p / of_nat q"
proof (cases "0 \<le> e")
  case True
  have "(q * 2 ^ nat e \<le> p) \<longleftrightarrow> ((of_nat (q * 2 ^ nat e) :: rat) \<le> of_nat p)"
    by (simp only: of_nat_le_iff)
  also have "\<dots> \<longleftrightarrow> (2::rat) ^ nat e \<le> of_nat p / of_nat q"
    using assms by (simp add: field_simps)
  finally show ?thesis using True by (simp add: at_least_pow2_def power_int_def)
next
  case False
  have "(q \<le> p * 2 ^ nat (- e)) \<longleftrightarrow> ((of_nat q :: rat) \<le> of_nat (p * 2 ^ nat (- e)))"
    by (simp only: of_nat_le_iff)
  also have "\<dots> \<longleftrightarrow> inverse (2::rat) ^ nat (- e) \<le> of_nat p / of_nat q"
    using assms by (simp add: field_simps)
  finally show ?thesis using False by (simp add: at_least_pow2_def power_int_def)
qed

lemma bitlen_pos: "0 < n \<Longrightarrow> 0 < bitlen n"
  by (subst bitlen.simps) simp

lemma exponent_bounds:
  fixes p q :: nat
  assumes "0 < p" and "0 < q"
  defines "e0 \<equiv> int (bitlen p) - int (bitlen q)"
  defines "e \<equiv> (if at_least_pow2 p q e0 then e0 else e0 - 1)"
  shows "(2::rat) powi e \<le> of_nat p / of_nat q \<and> of_nat p / of_nat q < (2::rat) powi (e + 1)"
proof -
  let ?x = "of_nat p / of_nat q :: rat"
  let ?bp = "bitlen p" and ?bq = "bitlen q"
  have qpos: "(0::rat) < of_nat q" and ppos: "(0::rat) < of_nat p"
    using assms by simp_all
  from bitlen_bounds [OF assms(1)] have p1: "(2::rat) ^ (?bp - 1) \<le> of_nat p" and p2: "(of_nat p :: rat) < 2 ^ ?bp"
    by (metis of_nat_le_iff of_nat_numeral of_nat_power, metis of_nat_less_iff of_nat_numeral of_nat_power)
  from bitlen_bounds [OF assms(2)] have q1: "(2::rat) ^ (?bq - 1) \<le> of_nat q" and q2: "(of_nat q :: rat) < 2 ^ ?bq"
    by (metis of_nat_le_iff of_nat_numeral of_nat_power, metis of_nat_less_iff of_nat_numeral of_nat_power)
  have bp: "0 < ?bp" and bq: "0 < ?bq"
    using assms by (simp_all add: bitlen_pos)
  have "of_nat p * (2::rat) ^ (?bq - 1) \<le> of_nat p * of_nat q"
    using q1 ppos by (simp add: mult_left_mono)
  also have "\<dots> < 2 ^ ?bp * of_nat q"
    using p2 qpos by (simp add: mult_strict_right_mono)
  finally have "?x < 2 ^ ?bp / 2 ^ (?bq - 1)"
    using qpos by (simp add: field_simps)
  also have "(2::rat) ^ ?bp / 2 ^ (?bq - 1) = 2 powi (e0 + 1)"
  proof -
    have "e0 + 1 = int ?bp - int (?bq - 1)"
      using bq by (simp add: e0_def)
    then show ?thesis by (simp add: power_int_diff)
  qed
  finally have up: "?x < 2 powi (e0 + 1)" .
  have "(2::rat) ^ (?bp - 1) * of_nat q \<le> of_nat p * of_nat q"
    using p1 qpos by (simp add: mult_right_mono)
  also have "\<dots> < of_nat p * 2 ^ ?bq"
    using q2 ppos by (simp add: mult_strict_left_mono)
  finally have "2 ^ (?bp - 1) / 2 ^ ?bq < ?x"
    using qpos by (simp add: field_simps)
  moreover have "(2::rat) ^ (?bp - 1) / 2 ^ ?bq = 2 powi (e0 - 1)"
  proof -
    have "e0 - 1 = int (?bp - 1) - int ?bq"
      using bp by (simp add: e0_def)
    then show ?thesis by (simp add: power_int_diff)
  qed
  ultimately have low: "2 powi (e0 - 1) < ?x" by simp
  show ?thesis
  proof (cases "at_least_pow2 p q e0")
    case True
    then have "e = e0" by (simp add: e_def)
    with True up show ?thesis by (simp add: at_least_pow2_rat [OF assms(2)])
  next
    case False
    then have "e = e0 - 1" by (simp add: e_def)
    with False low show ?thesis by (simp add: at_least_pow2_rat [OF assms(2)])
  qed
qed

lemma round_half_even_ge:
  "k \<le> round_half_even y \<longleftrightarrow> (if even k then of_int k - 1 / 2 \<le> y else of_int k - 1 / 2 < y)"
proof -
  define m where "m = \<lfloor>y\<rfloor>"
  define f where "f = y - of_int m"
  have y: "y = of_int m + f" by (simp add: f_def)
  have f0: "0 \<le> f" and f1: "f < 1"
    unfolding f_def m_def by linarith+
  consider "f < 1 / 2" | "1 / 2 < f" | "f = 1 / 2" by linarith
  then show ?thesis
  proof cases
    case 1
    then have r: "round_half_even y = m"
      unfolding round_half_even_def Let_def m_def [symmetric] f_def [symmetric] by simp
    have "k \<le> m \<longleftrightarrow> of_int k - 1 / 2 \<le> y"
    proof
      assume "k \<le> m"
      then have "(of_int k :: rat) \<le> of_int m" by simp
      with f0 show "of_int k - 1 / 2 \<le> y" unfolding y by linarith
    next
      assume "of_int k - 1 / 2 \<le> y"
      with 1 have "(of_int k :: rat) - 1 < of_int m" unfolding y by linarith
      then have "k - 1 < m" by (metis of_int_1 of_int_diff of_int_less_iff)
      then show "k \<le> m" by simp
    qed
    moreover have "k \<le> m \<longleftrightarrow> of_int k - 1 / 2 < y"
    proof
      assume "k \<le> m"
      then have "(of_int k :: rat) \<le> of_int m" by simp
      with f0 show "of_int k - 1 / 2 < y" unfolding y by linarith
    next
      assume "of_int k - 1 / 2 < y"
      with 1 have "(of_int k :: rat) - 1 < of_int m" unfolding y by linarith
      then have "k - 1 < m" by (metis of_int_1 of_int_diff of_int_less_iff)
      then show "k \<le> m" by simp
    qed
    ultimately show ?thesis unfolding r by simp
  next
    case 2
    then have r: "round_half_even y = m + 1"
      unfolding round_half_even_def Let_def m_def [symmetric] f_def [symmetric] by simp
    have "k \<le> m + 1 \<longleftrightarrow> of_int k - 1 / 2 \<le> y"
    proof
      assume "k \<le> m + 1"
      then have "(of_int k :: rat) \<le> of_int m + 1" by (metis of_int_1 of_int_add of_int_le_iff)
      with 2 show "of_int k - 1 / 2 \<le> y" unfolding y by linarith
    next
      assume "of_int k - 1 / 2 \<le> y"
      with f1 have "(of_int k :: rat) - 2 < of_int m" unfolding y by linarith
      then have "k - 2 < m" by (metis of_int_numeral of_int_diff of_int_less_iff)
      then show "k \<le> m + 1" by simp
    qed
    moreover have "k \<le> m + 1 \<longleftrightarrow> of_int k - 1 / 2 < y"
    proof
      assume "k \<le> m + 1"
      then have "(of_int k :: rat) \<le> of_int m + 1" by (metis of_int_1 of_int_add of_int_le_iff)
      with 2 show "of_int k - 1 / 2 < y" unfolding y by linarith
    next
      assume "of_int k - 1 / 2 < y"
      with f1 have "(of_int k :: rat) - 2 < of_int m" unfolding y by linarith
      then have "k - 2 < m" by (metis of_int_numeral of_int_diff of_int_less_iff)
      then show "k \<le> m + 1" by simp
    qed
    ultimately show ?thesis unfolding r by simp
  next
    case 3
    then have r: "round_half_even y = (if even m then m else m + 1)"
      unfolding round_half_even_def Let_def m_def [symmetric] f_def [symmetric] by simp
    have a: "of_int k - 1 / 2 \<le> y \<longleftrightarrow> k \<le> m + 1"
    proof
      assume "of_int k - 1 / 2 \<le> y"
      with 3 have "(of_int k :: rat) - 1 \<le> of_int m" unfolding y by linarith
      then have "k - 1 \<le> m" by (metis of_int_1 of_int_diff of_int_le_iff)
      then show "k \<le> m + 1" by simp
    next
      assume "k \<le> m + 1"
      then have "(of_int k :: rat) \<le> of_int m + 1" by (metis of_int_1 of_int_add of_int_le_iff)
      with 3 show "of_int k - 1 / 2 \<le> y" unfolding y by linarith
    qed
    have b: "of_int k - 1 / 2 < y \<longleftrightarrow> k \<le> m"
    proof
      assume "of_int k - 1 / 2 < y"
      with 3 have "(of_int k :: rat) - 1 < of_int m" unfolding y by linarith
      then have "k - 1 < m" by (metis of_int_1 of_int_diff of_int_less_iff)
      then show "k \<le> m" by simp
    next
      assume "k \<le> m"
      then have "(of_int k :: rat) \<le> of_int m" by simp
      with 3 show "of_int k - 1 / 2 < y" unfolding y by linarith
    qed
    show ?thesis unfolding r a b by presburger
  qed
qed

lemma round_div:
  fixes num den :: nat
  assumes "0 < den"
  shows "int (if 2 * (num mod den) < den then num div den
              else if den < 2 * (num mod den) then num div den + 1
              else if even (num div den) then num div den else num div den + 1)
         = round_half_even (of_nat num / of_nat den)"
proof -
  let ?y = "of_nat num / of_nat den :: rat"
  have fl: "\<lfloor>?y\<rfloor> = int (num div den)"
    by (simp add: floor_divide_of_nat_eq)
  have dpos: "(0::rat) < of_nat den" using assms by simp
  have "(of_nat num :: rat) = of_nat (num div den * den + num mod den)"
    by simp
  also have "\<dots> = of_nat (num div den) * of_nat den + of_nat (num mod den)"
    by (simp only: of_nat_add of_nat_mult)
  finally have fr: "?y - of_int (int (num div den)) = of_nat (num mod den) / of_nat den"
    using dpos by (simp add: field_simps)
  have lt: "(of_nat (num mod den) / of_nat den :: rat) < 1 / 2 \<longleftrightarrow> 2 * (num mod den) < den"
  proof -
    have "(of_nat (num mod den) / of_nat den :: rat) < 1 / 2 \<longleftrightarrow> (of_nat (2 * (num mod den)) :: rat) < of_nat den"
      using dpos by (simp add: field_simps)
    then show ?thesis by (simp only: of_nat_less_iff)
  qed
  have gt: "1 / 2 < (of_nat (num mod den) / of_nat den :: rat) \<longleftrightarrow> den < 2 * (num mod den)"
  proof -
    have "1 / 2 < (of_nat (num mod den) / of_nat den :: rat) \<longleftrightarrow> (of_nat den :: rat) < of_nat (2 * (num mod den))"
      using dpos by (simp add: field_simps)
    then show ?thesis by (simp only: of_nat_less_iff)
  qed
  show ?thesis
    unfolding round_half_even_def Let_def fl fr lt gt by simp
qed

lemma scaled_ratio:
  fixes p q :: nat
  assumes "0 < q"
  shows "(of_nat (if t < 0 then p * 2 ^ nat (- t) else p) :: rat)
           / of_nat (if t < 0 then q else q * 2 ^ nat t)
         = (of_nat p / of_nat q) / 2 powi t"
  using assms by (auto simp: power_int_def field_simps)

lemma round_ratio_char:
  fixes p q :: nat
  assumes "0 < p" and "0 < q"
  obtains e where "(2::rat) powi e \<le> of_nat p / of_nat q"
    and "of_nat p / of_nat q < (2::rat) powi (e + 1)"
    and "round_ratio neg p q =
           (if 0 \<le> max (e - 52) (- 1074)
               \<and> 2 ^ 1024 \<le> round_half_even ((of_nat p / of_nat q) / 2 powi max (e - 52) (- 1074))
                              * 2 ^ nat (max (e - 52) (- 1074))
            then (if neg then NegInf else PosInf)
            else Finite (if neg then - round_half_even ((of_nat p / of_nat q) / 2 powi max (e - 52) (- 1074))
                         else round_half_even ((of_nat p / of_nat q) / 2 powi max (e - 52) (- 1074)))
                   (max (e - 52) (- 1074)))"
proof -
  define e0 where "e0 = int (bitlen p) - int (bitlen q)"
  define e where "e = (if at_least_pow2 p q e0 then e0 else e0 - 1)"
  define t where "t = max (e - 52) (- 1074)"
  define num where "num = (if t < 0 then p * 2 ^ nat (- t) else p)"
  define den where "den = (if t < 0 then q else q * 2 ^ nat t)"
  define n where "n = (if 2 * (num mod den) < den then num div den
              else if den < 2 * (num mod den) then num div den + 1
              else if even (num div den) then num div den else num div den + 1)"
  have den: "0 < den" using assms(2) by (simp add: den_def)
  have n: "int n = round_half_even ((of_nat p / of_nat q) / 2 powi t)"
    unfolding n_def round_div [OF den] unfolding num_def den_def scaled_ratio [OF assms(2)] ..
  have b: "(2::rat) powi e \<le> of_nat p / of_nat q \<and> of_nat p / of_nat q < (2::rat) powi (e + 1)"
    unfolding e_def e0_def by (rule exponent_bounds [OF assms])
  have ov: "(2 ^ 1024 \<le> n * 2 ^ nat t) \<longleftrightarrow> ((2::int) ^ 1024 \<le> int n * 2 ^ nat t)"
  proof -
    have "int (2 ^ 1024) = (2::int) ^ 1024" by simp
    moreover have "int (n * 2 ^ nat t) = int n * 2 ^ nat t" by simp
    ultimately show ?thesis by (metis of_nat_le_iff)
  qed
  have "round_ratio neg p q =
          (if 0 \<le> t \<and> 2 ^ 1024 \<le> n * 2 ^ nat t then (if neg then NegInf else PosInf)
           else Finite (if neg then - int n else int n) t)"
    using assms(1)
    unfolding round_ratio_def Let_def e0_def [symmetric] e_def [symmetric] t_def [symmetric]
      num_def [symmetric] den_def [symmetric] n_def [symmetric]
    by simp
  then have "round_ratio neg p q =
          (if 0 \<le> t \<and> 2 ^ 1024 \<le> round_half_even ((of_nat p / of_nat q) / 2 powi t) * 2 ^ nat t
           then (if neg then NegInf else PosInf)
           else Finite (if neg then - round_half_even ((of_nat p / of_nat q) / 2 powi t)
                        else round_half_even ((of_nat p / of_nat q) / 2 powi t)) t)"
    unfolding ov n .
  then show thesis
    using b that [of e] unfolding t_def by blast
qed

lemma d_ge_Finite:
  "d_ge (Finite a s) (Finite b u) \<longleftrightarrow> of_int b * (2::rat) powi u \<le> of_int a * 2 powi s"
proof -
  define e where "e = min s u"
  have s: "(2::rat) powi s = 2 ^ nat (s - e) * 2 powi e"
  proof -
    have "(2::rat) powi s = 2 powi (s - e) * 2 powi e"
      by (simp flip: power_int_add)
    then show ?thesis by (simp add: e_def power_int_def)
  qed
  have u: "(2::rat) powi u = 2 ^ nat (u - e) * 2 powi e"
  proof -
    have "(2::rat) powi u = 2 powi (u - e) * 2 powi e"
      by (simp flip: power_int_add)
    then show ?thesis by (simp add: e_def power_int_def)
  qed
  have "of_int b * (2::rat) powi u \<le> of_int a * 2 powi s
          \<longleftrightarrow> (of_int (b * 2 ^ nat (u - e)) :: rat) * 2 powi e \<le> of_int (a * 2 ^ nat (s - e)) * 2 powi e"
    by (simp add: s u mult.assoc)
  also have "\<dots> \<longleftrightarrow> (of_int (b * 2 ^ nat (u - e)) :: rat) \<le> of_int (a * 2 ^ nat (s - e))"
    by (rule mult_le_cancel_right_pos) simp
  also have "\<dots> \<longleftrightarrow> b * 2 ^ nat (u - e) \<le> a * 2 ^ nat (s - e)"
    by (rule of_int_le_iff)
  finally show ?thesis
    by (simp add: d_ge_def Let_def e_def)
qed

lemma round_ratio_below:
  fixes p q :: nat and M u :: int
  assumes "0 < p" and "0 < q"
    and "(2::rat) powi e \<le> of_nat p / of_nat q"
    and res: "round_ratio neg p q =
           (if 0 \<le> max (e - 52) (- 1074)
               \<and> 2 ^ 1024 \<le> round_half_even ((of_nat p / of_nat q) / 2 powi max (e - 52) (- 1074))
                              * 2 ^ nat (max (e - 52) (- 1074))
            then (if neg then NegInf else PosInf)
            else Finite (if neg then - round_half_even ((of_nat p / of_nat q) / 2 powi max (e - 52) (- 1074))
                         else round_half_even ((of_nat p / of_nat q) / 2 powi max (e - 52) (- 1074)))
                   (max (e - 52) (- 1074)))"
    and "max (e - 52) (- 1074) \<le> u" and "u < 0"
  shows "d_ge (d_abs (round_ratio neg p q)) (Finite M u) \<longleftrightarrow>
           (if max (e - 52) (- 1074) < u \<or> even M
            then of_int M * 2 powi u - 2 powi (max (e - 52) (- 1074) - 1) \<le> (of_nat p / of_nat q :: rat)
            else of_int M * 2 powi u - 2 powi (max (e - 52) (- 1074) - 1) < (of_nat p / of_nat q :: rat))"
proof -
  define t where "t = max (e - 52) (- 1074)"
  define x :: rat where "x = of_nat p / of_nat q"
  define n where "n = round_half_even (x / 2 powi t)"
  have t: "t \<le> u" "t < 0" using assms(5,6) by (simp_all add: t_def)
  have xpos: "0 < x" using assms(1,2) by (simp add: x_def)
  have "0 \<le> x / 2 powi t" using xpos by simp
  then have npos: "0 \<le> n"
    unfolding n_def round_half_even_ge by simp
  have r: "round_ratio neg p q = Finite (if neg then - n else n) t"
    using res t unfolding t_def [symmetric] x_def [symmetric] n_def [symmetric] by simp
  have a: "d_abs (round_ratio neg p q) = Finite n t"
    unfolding r using npos by (simp add: d_abs_def)
  define k where "k = M * 2 ^ nat (u - t)"
  have kp: "(of_int k :: rat) * 2 powi t = of_int M * 2 powi u"
  proof -
    have "(2::rat) powi u = 2 powi (u - t) * 2 powi t"
      by (simp flip: power_int_add)
    also have "(2::rat) powi (u - t) = 2 ^ nat (u - t)"
      using t by (simp add: power_int_def)
    finally show ?thesis by (simp add: k_def)
  qed
  have ev: "even k \<longleftrightarrow> t < u \<or> even M"
    using t by (auto simp: k_def)
  have h: "(1 / 2 :: rat) * 2 powi t = 2 powi (t - 1)"
    by (simp add: power_int_diff)
  have "d_ge (Finite n t) (Finite M u) \<longleftrightarrow> (of_int k :: rat) * 2 powi t \<le> of_int n * 2 powi t"
    unfolding d_ge_Finite kp ..
  also have "\<dots> \<longleftrightarrow> (of_int k :: rat) \<le> of_int n"
    by (rule mult_le_cancel_right_pos) simp
  also have "\<dots> \<longleftrightarrow> k \<le> n" by (rule of_int_le_iff)
  also have "\<dots> \<longleftrightarrow> (if even k then of_int k - 1 / 2 \<le> x / 2 powi t else of_int k - 1 / 2 < x / 2 powi t)"
    unfolding n_def by (rule round_half_even_ge)
  also have "\<dots> \<longleftrightarrow> (if even k then (of_int k - 1 / 2) * 2 powi t \<le> x else (of_int k - 1 / 2) * 2 powi t < x)"
    by (simp add: pos_le_divide_eq pos_less_divide_eq)
  also have "((of_int k :: rat) - 1 / 2) * 2 powi t = of_int M * 2 powi u - 2 powi (t - 1)"
    unfolding left_diff_distrib kp h ..
  finally show ?thesis
    unfolding a ev t_def x_def .
qed

lemma round_ratio_above:
  fixes p q :: nat and M u :: int
  assumes "0 < p" and "0 < q"
    and "(2::rat) powi e \<le> of_nat p / of_nat q"
    and res: "round_ratio neg p q =
           (if 0 \<le> max (e - 52) (- 1074)
               \<and> 2 ^ 1024 \<le> round_half_even ((of_nat p / of_nat q) / 2 powi max (e - 52) (- 1074))
                              * 2 ^ nat (max (e - 52) (- 1074))
            then (if neg then NegInf else PosInf)
            else Finite (if neg then - round_half_even ((of_nat p / of_nat q) / 2 powi max (e - 52) (- 1074))
                         else round_half_even ((of_nat p / of_nat q) / 2 powi max (e - 52) (- 1074)))
                   (max (e - 52) (- 1074)))"
    and "- 1022 \<le> e" and "of_int M * (2::rat) powi u \<le> 2 powi e"
  shows "d_ge (d_abs (round_ratio neg p q)) (Finite M u)"
proof -
  define t where "t = max (e - 52) (- 1074)"
  define x :: rat where "x = of_nat p / of_nat q"
  define n where "n = round_half_even (x / 2 powi t)"
  have t: "t = e - 52" using assms(5) by (simp add: t_def)
  have "(2::rat) ^ 52 = 2 powi e / 2 powi t"
    unfolding t by (simp flip: power_int_diff)
  also have "\<dots> \<le> x / 2 powi t"
    unfolding x_def by (rule divide_right_mono [OF assms(3)]) simp
  finally have "(2::rat) ^ 52 \<le> x / 2 powi t" .
  moreover have "(of_int (2 ^ 52) :: rat) = 2 ^ 52" by simp
  ultimately have "(of_int (2 ^ 52) :: rat) - 1 / 2 \<le> x / 2 powi t" by linarith
  then have n52: "2 ^ 52 \<le> n"
    unfolding n_def round_half_even_ge by simp
  then have npos: "0 \<le> n" by simp
  show ?thesis
  proof (cases "0 \<le> t \<and> 2 ^ 1024 \<le> n * 2 ^ nat t")
    case True
    then have "round_ratio neg p q = (if neg then NegInf else PosInf)"
      using res unfolding t_def [symmetric] x_def [symmetric] n_def [symmetric] by simp
    then show ?thesis by (simp add: d_abs_def d_ge_def)
  next
    case False
    then have "round_ratio neg p q = Finite (if neg then - n else n) t"
      using res unfolding t_def [symmetric] x_def [symmetric] n_def [symmetric] by simp
    then have a: "d_abs (round_ratio neg p q) = Finite n t"
      using npos by (simp add: d_abs_def)
    have "(2::rat) powi e = 2 ^ 52 * 2 powi t"
      unfolding t by (simp add: power_int_diff)
    also have "\<dots> \<le> of_int n * 2 powi t"
    proof (rule mult_right_mono)
      have "(of_int (2 ^ 52) :: rat) \<le> of_int n" using n52 by (simp only: of_int_le_iff)
      then show "(2::rat) ^ 52 \<le> of_int n" by simp
    qed simp
    finally show ?thesis
      unfolding a d_ge_Finite using assms(6) by linarith
  qed
qed

lemma ratio_ge_one:
  fixes p q :: nat
  assumes "0 < q"
  shows "d_ge (d_abs (round_ratio neg p q)) (Finite 4503599627370496 (- 52))
           \<longleftrightarrow> 1 - 1 / 2 ^ 54 \<le> (of_nat p / of_nat q :: rat)"
proof (cases "p = 0")
  case True
  then show ?thesis by (simp add: round_ratio_def d_abs_def d_ge_Finite)
next
  case False
  then have p: "0 < p" by simp
  from round_ratio_char [OF p assms, of neg] obtain e where
    lo: "(2::rat) powi e \<le> of_nat p / of_nat q" and hi: "of_nat p / of_nat q < (2::rat) powi (e + 1)"
    and res: "round_ratio neg p q =
           (if 0 \<le> max (e - 52) (- 1074)
               \<and> 2 ^ 1024 \<le> round_half_even ((of_nat p / of_nat q) / 2 powi max (e - 52) (- 1074))
                              * 2 ^ nat (max (e - 52) (- 1074))
            then (if neg then NegInf else PosInf)
            else Finite (if neg then - round_half_even ((of_nat p / of_nat q) / 2 powi max (e - 52) (- 1074))
                         else round_half_even ((of_nat p / of_nat q) / 2 powi max (e - 52) (- 1074)))
                   (max (e - 52) (- 1074)))"
    by blast
  define x :: rat where "x = of_nat p / of_nat q"
  define t where "t = max (e - 52) (- 1074)"
  have one: "of_int 4503599627370496 * (2::rat) powi (- 52) = 1" by simp
  have c54: "(1 - 1 / 2 ^ 54 :: rat) \<le> 1" by simp
  have tpos: "(0::rat) \<le> 2 powi (t - 1)" by simp
  show ?thesis
  proof (cases "1 \<le> e")
    case True
    have e1: "(1::rat) \<le> 2 powi e" using True by simp
    have "d_ge (d_abs (round_ratio neg p q)) (Finite 4503599627370496 (- 52))"
      by (rule round_ratio_above [OF p assms lo res]) (use True e1 in \<open>simp_all add: one\<close>)
    moreover have "1 - 1 / 2 ^ 54 \<le> (of_nat p / of_nat q :: rat)"
      using lo e1 c54 by linarith
    ultimately show ?thesis by simp
  next
    case False
    then have t: "max (e - 52) (- 1074) \<le> - 52" by simp
    have below: "d_ge (d_abs (round_ratio neg p q)) (Finite 4503599627370496 (- 52))
           \<longleftrightarrow> 1 - 2 powi (t - 1) \<le> x"
      unfolding round_ratio_below [OF p assms lo res t neg_numeral_less_zero] one t_def x_def by simp
    consider "e = 0" | "e = - 1" | "e \<le> - 2" using False by linarith
    then have "1 - 2 powi (t - 1) \<le> x \<longleftrightarrow> 1 - 1 / 2 ^ 54 \<le> x"
    proof cases
      case 1
      then have "(2::rat) powi e = 1" by simp
      moreover have "2 powi e \<le> x" unfolding x_def by (rule lo)
      ultimately have "(1::rat) \<le> x" by linarith
      with c54 tpos show ?thesis by linarith
    next
      case 2
      then have tt: "t - 1 = - 54" by (simp add: t_def)
      have pw: "(2::rat) powi (- 54) = 1 / 2 ^ 54" by (simp add: power_int_minus_divide)
      show ?thesis unfolding tt pw ..
    next
      case 3
      then have "(2::rat) powi (e + 1) \<le> 2 powi (- 1)"
        by (intro power_int_increasing) simp_all
      moreover have "(2::rat) powi (- 1) = 1 / 2" by simp
      moreover have "x < 2 powi (e + 1)" unfolding x_def by (rule hi)
      ultimately have xs: "x < 1 / 2" by linarith
      have "(2::rat) powi (t - 1) \<le> 2 powi (- 2)"
        using 3 by (intro power_int_increasing) (simp_all add: t_def)
      moreover have "(2::rat) powi (- 2) = 1 / 4" by (simp add: power_int_minus_divide)
      ultimately have h: "(2::rat) powi (t - 1) \<le> 1 / 4" by simp
      have k: "(1 / 2 :: rat) < 1 - 1 / 2 ^ 54" by simp
      from xs h k show ?thesis by linarith
    qed
    then show ?thesis unfolding below x_def .
  qed
qed

lemma ratio_ge_one_percent:
  fixes p q :: nat
  assumes "0 < q"
  shows "d_ge (d_abs (round_ratio neg p q)) (Finite 5764607523034235 (- 59))
           \<longleftrightarrow> 11529215046068469 / 2 ^ 60 < (of_nat p / of_nat q :: rat)"
proof (cases "p = 0")
  case True
  then show ?thesis by (simp add: round_ratio_def d_abs_def d_ge_Finite)
next
  case False
  then have p: "0 < p" by simp
  from round_ratio_char [OF p assms, of neg] obtain e where
    lo: "(2::rat) powi e \<le> of_nat p / of_nat q" and hi: "of_nat p / of_nat q < (2::rat) powi (e + 1)"
    and res: "round_ratio neg p q =
           (if 0 \<le> max (e - 52) (- 1074)
               \<and> 2 ^ 1024 \<le> round_half_even ((of_nat p / of_nat q) / 2 powi max (e - 52) (- 1074))
                              * 2 ^ nat (max (e - 52) (- 1074))
            then (if neg then NegInf else PosInf)
            else Finite (if neg then - round_half_even ((of_nat p / of_nat q) / 2 powi max (e - 52) (- 1074))
                         else round_half_even ((of_nat p / of_nat q) / 2 powi max (e - 52) (- 1074)))
                   (max (e - 52) (- 1074)))"
    by blast
  define x :: rat where "x = of_nat p / of_nat q"
  define t where "t = max (e - 52) (- 1074)"
  define c :: rat where "c = of_int 5764607523034235 * 2 powi (- 59)"
  have c1: "c \<le> 1 / 64" and c2: "11529215046068469 / 2 ^ 60 < (1 / 64 :: rat)"
    and c3: "(1 / 128 :: rat) < c - 1 / 2 ^ 61" and c4: "(1 / 128 :: rat) < 11529215046068469 / 2 ^ 60"
    and c5: "c - 1 / 2 ^ 60 = 11529215046068469 / 2 ^ 60"
    by (simp_all add: c_def power_int_minus_divide)
  show ?thesis
  proof (cases "- 6 \<le> e")
    case True
    have "(2::rat) powi (- 6) \<le> 2 powi e"
      using True by (intro power_int_increasing) simp_all
    moreover have "(2::rat) powi (- 6) = 1 / 64" by (simp add: power_int_minus_divide)
    ultimately have e6: "(1 / 64 :: rat) \<le> 2 powi e" by simp
    have "of_int 5764607523034235 * (2::rat) powi (- 59) \<le> 2 powi e"
      using e6 c1 unfolding c_def by linarith
    then have "d_ge (d_abs (round_ratio neg p q)) (Finite 5764607523034235 (- 59))"
      by (intro round_ratio_above [OF p assms lo res]) (use True in simp_all)
    moreover have "11529215046068469 / 2 ^ 60 < (of_nat p / of_nat q :: rat)"
      using lo e6 c2 by linarith
    ultimately show ?thesis by simp
  next
    case False
    then have t: "max (e - 52) (- 1074) \<le> - 59" by simp
    have below: "d_ge (d_abs (round_ratio neg p q)) (Finite 5764607523034235 (- 59))
           \<longleftrightarrow> (if t < - 59 then c - 2 powi (t - 1) \<le> x else c - 2 powi (t - 1) < x)"
      unfolding round_ratio_below [OF p assms lo res t neg_numeral_less_zero] t_def x_def c_def by simp
    consider "e = - 7" | "e \<le> - 8" using False by linarith
    then have "(if t < - 59 then c - 2 powi (t - 1) \<le> x else c - 2 powi (t - 1) < x)
                 \<longleftrightarrow> 11529215046068469 / 2 ^ 60 < x"
    proof cases
      case 1
      then have t59: "\<not> t < - 59" and tt: "t - 1 = - 60" by (simp_all add: t_def)
      have pw: "(2::rat) powi (- 60) = 1 / 2 ^ 60" by (simp add: power_int_minus_divide)
      show ?thesis unfolding tt pw c5 using t59 by (simp only: if_False)
    next
      case 2
      then have "(2::rat) powi (e + 1) \<le> 2 powi (- 7)"
        by (intro power_int_increasing) simp_all
      moreover have "(2::rat) powi (- 7) = 1 / 128" by (simp add: power_int_minus_divide)
      moreover have "x < 2 powi (e + 1)" unfolding x_def by (rule hi)
      ultimately have xs: "x < 1 / 128" by linarith
      have "(2::rat) powi (t - 1) \<le> 2 powi (- 61)"
        using 2 by (intro power_int_increasing) (simp_all add: t_def)
      moreover have "(2::rat) powi (- 61) = 1 / 2 ^ 61" by (simp add: power_int_minus_divide)
      ultimately have h: "(2::rat) powi (t - 1) \<le> 1 / 2 ^ 61" by simp
      have tl: "t < - 59" using 2 by (simp add: t_def)
      have "\<not> c - 2 powi (t - 1) \<le> x" using xs h c3 by linarith
      moreover have "\<not> 11529215046068469 / 2 ^ 60 < x" using xs c4 by linarith
      ultimately show ?thesis using tl by simp
    qed
    then show ?thesis unfolding below x_def .
  qed
qed

lemma d_sub_Finite:
  "\<exists>neg P Q. 0 < Q \<and> d_sub (Finite a s) (Finite b u) = round_ratio neg P Q
      \<and> (of_nat P / of_nat Q :: rat) = \<bar>of_int a * 2 powi s - of_int b * 2 powi u\<bar>"
proof -
  define e where "e = min s u"
  define d where "d = a * 2 ^ nat (s - e) - b * 2 ^ nat (u - e)"
  have s: "(2::rat) powi s = 2 ^ nat (s - e) * 2 powi e"
  proof -
    have "(2::rat) powi s = 2 powi (s - e) * 2 powi e"
      by (simp flip: power_int_add)
    then show ?thesis by (simp add: e_def power_int_def)
  qed
  have u: "(2::rat) powi u = 2 ^ nat (u - e) * 2 powi e"
  proof -
    have "(2::rat) powi u = 2 powi (u - e) * 2 powi e"
      by (simp flip: power_int_add)
    then show ?thesis by (simp add: e_def power_int_def)
  qed
  have "of_int a * (2::rat) powi s - of_int b * 2 powi u = of_int d * 2 powi e"
    by (simp add: s u d_def algebra_simps)
  then have v: "\<bar>of_int a * (2::rat) powi s - of_int b * 2 powi u\<bar> = of_nat (nat \<bar>d\<bar>) * 2 powi e"
    by (simp add: abs_mult)
  have r: "d_sub (Finite a s) (Finite b u) =
             (if 0 \<le> e then round_ratio (d < 0) (nat \<bar>d\<bar> * 2 ^ nat e) 1
              else round_ratio (d < 0) (nat \<bar>d\<bar>) (2 ^ nat (- e)))"
    unfolding d_sub_def double.case Let_def e_def [symmetric] d_def [symmetric] ..
  show ?thesis
  proof (cases "0 \<le> e")
    case True
    have "d_sub (Finite a s) (Finite b u) = round_ratio (d < 0) (nat \<bar>d\<bar> * 2 ^ nat e) 1"
      unfolding r using True by simp
    moreover have "(of_nat (nat \<bar>d\<bar> * 2 ^ nat e) / of_nat 1 :: rat) = of_nat (nat \<bar>d\<bar>) * 2 powi e"
      using True by (simp add: power_int_def)
    ultimately show ?thesis unfolding v by (metis zero_less_one)
  next
    case False
    have "d_sub (Finite a s) (Finite b u) = round_ratio (d < 0) (nat \<bar>d\<bar>) (2 ^ nat (- e))"
      unfolding r using False by simp
    moreover have "(of_nat (nat \<bar>d\<bar>) / of_nat (2 ^ nat (- e)) :: rat) = of_nat (nat \<bar>d\<bar>) * 2 powi e"
      using False by (simp add: power_int_def field_simps)
    moreover have "(0::nat) < 2 ^ nat (- e)" by simp
    ultimately show ?thesis unfolding v by metis
  qed
qed

lemma delta_ge_one:
  "d_ge (d_abs (d_sub (Finite a s) (Finite b u))) (Finite 4503599627370496 (- 52))
     \<longleftrightarrow> 1 - 1 / 2 ^ 54 \<le> \<bar>dval (Finite a s) - dval (Finite b u)\<bar>"
proof -
  from d_sub_Finite [of a s b u] obtain neg P Q where
    "0 < Q" "d_sub (Finite a s) (Finite b u) = round_ratio neg P Q"
    "(of_nat P / of_nat Q :: rat) = \<bar>of_int a * 2 powi s - of_int b * 2 powi u\<bar>"
    by blast
  then show ?thesis
    using ratio_ge_one [of Q neg P] by (simp add: dval_def)
qed

lemma delta_ge_one_percent:
  "d_ge (d_abs (d_sub (Finite a s) (Finite b u))) (Finite 5764607523034235 (- 59))
     \<longleftrightarrow> 11529215046068469 / 2 ^ 60 < \<bar>dval (Finite a s) - dval (Finite b u)\<bar>"
proof -
  from d_sub_Finite [of a s b u] obtain neg P Q where
    "0 < Q" "d_sub (Finite a s) (Finite b u) = round_ratio neg P Q"
    "(of_nat P / of_nat Q :: rat) = \<bar>of_int a * 2 powi s - of_int b * 2 powi u\<bar>"
    by blast
  then show ?thesis
    using ratio_ge_one_percent [of Q neg P] by (simp add: dval_def)
qed

lemma bitlen_0 [simp]: "bitlen 0 = 0" by (simp add: bitlen.simps)
lemma bitlen_1 [simp]: "bitlen (Suc 0) = Suc 0" by (simp add: bitlen.simps)
lemma bitlen_numeral [simp]: "bitlen (numeral k) = Suc (bitlen (numeral k div 2))"
  by (subst bitlen.simps) simp

lemmas number_defs = parseFloat_def parse_unsigned_def parse_exponent_def signed_digits_def
  decimal_to_double_def round_ratio_def at_least_pow2_def is_white_space_def is_digit_def
  digit_value_def d_sub_def d_abs_def d_ge_def isNaN_def one_px_def one_percent_def Let_def

lemma parse_100px: "parseFloat ''100px'' = Finite 7036874417766400 (- 46)"
  by (simp add: number_defs)

lemma parse_100_5px: "parseFloat ''100.5px'' = Finite 7072058789855232 (- 46)"
  by (simp add: number_defs)

lemma parse_102px: "parseFloat ''102px'' = Finite 7177611906121728 (- 46)"
  by (simp add: number_defs)

lemma parse_1: "parseFloat ''1'' = Finite 4503599627370496 (- 52)"
  by (simp add: number_defs)

lemma parse_0_995: "parseFloat ''0.995'' = Finite 8962163258467287 (- 53)"
  by (simp add: number_defs)

lemma parse_0_97: "parseFloat ''0.97'' = Finite 8736983277098762 (- 53)"
  by (simp add: number_defs)

lemma one_px_eval: "one_px = Finite 4503599627370496 (- 52)"
  by (simp add: number_defs)

lemma one_percent_eval: "one_percent = Finite 5764607523034235 (- 59)"
  by (simp add: number_defs)

lemma sig_width_small: "\<not> isSignificantChange ''width'' ''100px'' ''100.5px''"
  unfolding isSignificantChange_def parse_100px parse_100_5px one_px_eval
  by (simp add: size_properties_def isNaN_def d_sub_def d_abs_def d_ge_def round_ratio_def at_least_pow2_def Let_def)

lemma sig_width_big: "isSignificantChange ''width'' ''100px'' ''102px''"
  unfolding isSignificantChange_def parse_100px parse_102px one_px_eval
  by (simp add: size_properties_def isNaN_def d_sub_def d_abs_def d_ge_def round_ratio_def at_least_pow2_def Let_def)

lemma sig_opacity_small: "\<not> isSignificantChange ''opacity'' ''1'' ''0.995''"
  unfolding isSignificantChange_def parse_1 parse_0_995 one_percent_eval
  by (simp add: size_properties_def isNaN_def d_sub_def d_abs_def d_ge_def round_ratio_def at_least_pow2_def Let_def)

lemma sig_opacity_big: "isSignificantChange ''opacity'' ''1'' ''0.97''"
  unfolding isSignificantChange_def parse_1 parse_0_97 one_percent_eval
  by (simp add: size_properties_def isNaN_def d_sub_def d_abs_def d_ge_def round_ratio_def at_least_pow2_def Let_def)

lemma parseFloat_empty: "parseFloat [] = NaN"
  by (simp add: parseFloat_def)

lemma map_of_style_fold:
  "map_of (foldl (style_step b a) acc props) k =
     (if k \<in> set props \<and> b k \<noteq> a k \<and> isSignificantChange k (b k) (a k)
      then Some \<lparr>pc_from = b k, pc_to = a k\<rparr>
      else map_of acc k)"
  by (induction props arbitrary: acc) (auto simp: style_step_def Let_def AList.update_conv')

lemmas style_diff_eval = computeStyleDiff_def MEANINGFUL_STYLE_PROPERTIES_def style_step_def
  single_style_def Let_def

lemma significant_size_finite:
  assumes "prop \<in> set size_properties"
    and "parseFloat from = Finite a s" and "parseFloat to = Finite b u"
  shows "isSignificantChange prop from to
           \<longleftrightarrow> 1 - 1 / 2 ^ 54 \<le> \<bar>dval (parseFloat to) - dval (parseFloat from)\<bar>"
proof -
  have ne: "from \<noteq> []"
    using assms(2) parseFloat_empty by auto
  show ?thesis
    unfolding isSignificantChange_def using ne assms(1)
    by (simp add: assms(2,3) isNaN_def one_px_eval delta_ge_one)
qed

lemma significant_opacity_finite:
  assumes "parseFloat from = Finite a s" and "parseFloat to = Finite b u"
  shows "isSignificantChange ''opacity'' from to
           \<longleftrightarrow> 11529215046068469 / 2 ^ 60 < \<bar>dval (parseFloat to) - dval (parseFloat from)\<bar>"
proof -
  have ne: "from \<noteq> []"
    using assms(1) parseFloat_empty by auto
  show ?thesis
    unfolding isSignificantChange_def using ne
    by (simp add: assms isNaN_def one_percent_eval delta_ge_one_percent size_properties_def)
qed

lemma significant_infinite:
  assumes "prop \<in> set size_properties \<or> prop = ''opacity''"
    and "parseFloat from \<noteq> NaN" and "parseFloat to \<noteq> NaN"
    and "parseFloat from \<in> {PosInf, NegInf} \<or> parseFloat to \<in> {PosInf, NegInf}"
  shows "isSignificantChange prop from to \<longleftrightarrow> parseFloat from \<noteq> parseFloat to"
proof -
  have ne: "from \<noteq> []"
    using assms(2) parseFloat_empty by auto
  have d: "d_ge (d_abs (d_sub (parseFloat to) (parseFloat from))) (Finite M v)
             \<longleftrightarrow> parseFloat from \<noteq> parseFloat to" for M v
    using assms(2,3,4)
    by (cases "parseFloat to"; cases "parseFloat from") (simp_all add: d_sub_def d_abs_def d_ge_def)
  show ?thesis
    unfolding isSignificantChange_def using ne assms(1,2,3)
    by (auto simp: isNaN_def one_px_eval one_percent_eval d)
qed

lemma significant_otherwise:
  assumes "parseFloat from = NaN \<or> parseFloat to = NaN
           \<or> (prop \<notin> set size_properties \<and> prop \<noteq> ''opacity'')"
  shows "isSignificantChange prop from to \<longleftrightarrow> from \<noteq> [] \<or> to \<noteq> []"
  using assms by (auto simp: isSignificantChange_def isNaN_def)

lemma bitlen_2 [simp]: "bitlen (Suc (Suc 0)) = 2"
  using bitlen_numeral [of "Num.Bit0 Num.One"] by (simp add: numeral_2_eq_2)

lemma parse_1px: "parseFloat ''1px'' = Finite 4503599627370496 (- 52)"
  by (simp add: number_defs)

lemma parse_2px: "parseFloat ''2px'' = Finite 4503599627370496 (- 51)"
  by (simp add: number_defs)

lemma parse_1_3px: "parseFloat ''1.3px'' = Finite 5854679515581645 (- 52)"
  by (simp add: number_defs)

lemma parse_2_3px: "parseFloat ''2.3px'' = Finite 5179139571476070 (- 51)"
  by (simp add: number_defs)

lemma parse_0: "parseFloat ''0'' = Finite 0 0"
  by (simp add: number_defs)

lemma parse_0_01: "parseFloat ''0.01'' = Finite 5764607523034235 (- 59)"
  by (simp add: number_defs)

lemma parse_0_1: "parseFloat ''0.1'' = Finite 7205759403792794 (- 56)"
  by (simp add: number_defs)

lemma parse_0_11: "parseFloat ''0.11'' = Finite 7926335344172073 (- 56)"
  by (simp add: number_defs)

lemma parse_1e2px: "parseFloat ''1e2px'' = Finite 7036874417766400 (- 46)"
  by (simp add: number_defs)

lemma parse_neg: "parseFloat ''-.5e1x'' = Finite (- 5629499534213120) (- 50)"
  by (simp add: number_defs)

lemma parse_space: "parseFloat '' 7px'' = Finite 7881299347898368 (- 50)"
  by (simp add: number_defs)

lemma parse_upper_exp: "parseFloat ''1.5E+1'' = Finite 8444249301319680 (- 49)"
  by (simp add: number_defs)

lemma parse_trailing_dot: "parseFloat ''+3.'' = Finite 6755399441055744 (- 51)"
  by (simp add: number_defs)

lemma parse_infinity: "parseFloat ''Infinity'' = PosInf" "parseFloat ''-Infinityx'' = NegInf"
  by (simp_all add: number_defs)

lemma parse_auto: "parseFloat ''auto'' = NaN" "parseFloat ''.'' = NaN" "parseFloat ''e5'' = NaN"
  by (simp_all add: number_defs)

lemmas sig_eval = size_properties_def isNaN_def d_sub_def d_abs_def d_ge_def round_ratio_def
  at_least_pow2_def Let_def

lemma sig_width_exact: "isSignificantChange ''width'' ''1px'' ''2px''"
  unfolding isSignificantChange_def parse_1px parse_2px one_px_eval
  by (simp add: sig_eval)

lemma sig_width_boundary: "\<not> isSignificantChange ''width'' ''1.3px'' ''2.3px''"
  unfolding isSignificantChange_def parse_1_3px parse_2_3px one_px_eval
  by (simp add: sig_eval)

lemma sig_opacity_exact: "isSignificantChange ''opacity'' ''0'' ''0.01''"
  unfolding isSignificantChange_def parse_0 parse_0_01 one_percent_eval
  by (simp add: sig_eval)

lemma sig_opacity_boundary: "\<not> isSignificantChange ''opacity'' ''0.1'' ''0.11''"
  unfolding isSignificantChange_def parse_0_1 parse_0_11 one_percent_eval
  by (simp add: sig_eval)

lemma sig_width_exponent: "isSignificantChange ''width'' ''1e2px'' ''1px''"
  unfolding isSignificantChange_def parse_1e2px parse_1px one_px_eval
  by (simp add: sig_eval)

text \<open>
  The decimal values 1.3 and 2.3 differ by exactly 1, and 0.1 and 0.11 by exactly 0.01,
  but the doubles that \<open>parseFloat\<close> yields differ by less than the thresholds: neither
  change is significant.
\<close>

theorem significance_decimal_counterexample:
  "\<not> isSignificantChange ''width'' ''1.3px'' ''2.3px''
   \<and> dval (parseFloat ''2.3px'') - dval (parseFloat ''1.3px'') = 1 - 1 / 2 ^ 52
   \<and> \<not> isSignificantChange ''opacity'' ''0.1'' ''0.11''
   \<and> dval (parseFloat ''0.11'') - dval (parseFloat ''0.1'') = 720575940379279 / 2 ^ 56"
  by (simp add: sig_width_boundary sig_opacity_boundary parse_1_3px parse_2_3px parse_0_1
        parse_0_11 dval_def power_int_minus_divide)

text \<open>
  C3 (amended). The predicate works on the doubles that \<open>parseFloat\<close> yields. For a
  position or size property with two finite numbers the change is significant exactly
  when the exact difference of the two doubles is at least \<open>1 - 2^-54\<close> in absolute
  value (the double subtraction then rounds to 1 or more); for opacity exactly when it
  exceeds the double nearest to 0.01 less \<open>2^-60\<close>. With an infinity on either side the
  change is significant exactly when the two numbers differ. When a value does not
  parse, or the property is neither of these, any pair other than two empty strings is
  significant. Width \<open>100px\<close> to \<open>100.5px\<close> and opacity \<open>1\<close> to \<open>0.995\<close> are not
  reported, width \<open>100px\<close> to \<open>102px\<close> and opacity \<open>1\<close> to \<open>0.97\<close> are; width
  \<open>1px\<close> to \<open>2px\<close> and opacity \<open>0\<close> to \<open>0.01\<close> are reported, width \<open>1.3px\<close> to
  \<open>2.3px\<close> and opacity \<open>0.1\<close> to \<open>0.11\<close> are not.
\<close>

theorem significance_thresholds:
  "(pn \<in> set size_properties \<and> parseFloat v = Finite a s \<and> parseFloat w = Finite b u \<longrightarrow>
      (isSignificantChange pn v w
         \<longleftrightarrow> 1 - 1 / 2 ^ 54 \<le> \<bar>dval (parseFloat w) - dval (parseFloat v)\<bar>))
   \<and> (parseFloat v = Finite a s \<and> parseFloat w = Finite b u \<longrightarrow>
      (isSignificantChange ''opacity'' v w
         \<longleftrightarrow> 5764607523034235 / 2 ^ 59 - 1 / 2 ^ 60 < \<bar>dval (parseFloat w) - dval (parseFloat v)\<bar>))
   \<and> ((pn \<in> set size_properties \<or> pn = ''opacity'')
        \<and> parseFloat v \<noteq> NaN \<and> parseFloat w \<noteq> NaN
        \<and> (parseFloat v \<in> {PosInf, NegInf} \<or> parseFloat w \<in> {PosInf, NegInf}) \<longrightarrow>
      (isSignificantChange pn v w \<longleftrightarrow> parseFloat v \<noteq> parseFloat w))
   \<and> (parseFloat v = NaN \<or> parseFloat w = NaN
        \<or> (pn \<notin> set size_properties \<and> pn \<noteq> ''opacity'') \<longrightarrow>
      (isSignificantChange pn v w \<longleftrightarrow> v \<noteq> [] \<or> w \<noteq> []))
   \<and> computeStyleDiff e (single_style ''width'' ''100px'') (single_style ''width'' ''100.5px'') = None
   \<and> computeStyleDiff e (single_style ''width'' ''100px'') (single_style ''width'' ''102px'')
       = Some \<lparr>sd_selector = [], sd_changes = [(''width'', \<lparr>pc_from = ''100px'', pc_to = ''102px''\<rparr>)]\<rparr>
   \<and> computeStyleDiff e (single_style ''opacity'' ''1'') (single_style ''opacity'' ''0.995'') = None
   \<and> computeStyleDiff e (single_style ''opacity'' ''1'') (single_style ''opacity'' ''0.97'')
       = Some \<lparr>sd_selector = [], sd_changes = [(''opacity'', \<lparr>pc_from = ''1'', pc_to = ''0.97''\<rparr>)]\<rparr>
   \<and> computeStyleDiff e (single_style ''width'' ''1px'') (single_style ''width'' ''2px'')
       = Some \<lparr>sd_selector = [], sd_changes = [(''width'', \<lparr>pc_from = ''1px'', pc_to = ''2px''\<rparr>)]\<rparr>
   \<and> computeStyleDiff e (single_style ''width'' ''1.3px'') (single_style ''width'' ''2.3px'') = None
   \<and> computeStyleDiff e (single_style ''opacity'' ''0'') (single_style ''opacity'' ''0.01'')
       = Some \<lparr>sd_selector = [], sd_changes = [(''opacity'', \<lparr>pc_from = ''0'', pc_to = ''0.01''\<rparr>)]\<rparr>
   \<and> computeStyleDiff e (single_style ''opacity'' ''0.1'') (single_style ''opacity'' ''0.11'') = None
   \<and> computeStyleDiff e (single_style ''width'' ''1e2px'') (single_style ''width'' ''1px'')
       = Some \<lparr>sd_selector = [], sd_changes = [(''width'', \<lparr>pc_from = ''1e2px'', pc_to = ''1px''\<rparr>)]\<rparr>
   \<and> dval (parseFloat ''100.5px'') = 201 / 2
   \<and> dval (parseFloat ''1e2px'') = 100
   \<and> dval (parseFloat ''-.5e1x'') = - 5
   \<and> dval (parseFloat '' 7px'') = 7
   \<and> dval (parseFloat ''1.5E+1'') = 15
   \<and> dval (parseFloat ''+3.'') = 3
   \<and> dval (parseFloat ''0.1'') = 3602879701896397 / 2 ^ 55
   \<and> parseFloat ''Infinity'' = PosInf
   \<and> parseFloat ''-Infinityx'' = NegInf
   \<and> parseFloat ''auto'' = NaN
   \<and> parseFloat ''.'' = NaN
   \<and> parseFloat ''e5'' = NaN"
proof -
  have g1: "pn \<in> set size_properties \<and> parseFloat v = Finite a s \<and> parseFloat w = Finite b u \<longrightarrow>
      (isSignificantChange pn v w
         \<longleftrightarrow> 1 - 1 / 2 ^ 54 \<le> \<bar>dval (parseFloat w) - dval (parseFloat v)\<bar>)"
    using significant_size_finite by blast
  have k: "(5764607523034235 / 2 ^ 59 - 1 / 2 ^ 60 :: rat) = 11529215046068469 / 2 ^ 60"
    by simp
  have g2: "parseFloat v = Finite a s \<and> parseFloat w = Finite b u \<longrightarrow>
      (isSignificantChange ''opacity'' v w
         \<longleftrightarrow> 5764607523034235 / 2 ^ 59 - 1 / 2 ^ 60 < \<bar>dval (parseFloat w) - dval (parseFloat v)\<bar>)"
    unfolding k using significant_opacity_finite by blast
  have g3: "(pn \<in> set size_properties \<or> pn = ''opacity'')
        \<and> parseFloat v \<noteq> NaN \<and> parseFloat w \<noteq> NaN
        \<and> (parseFloat v \<in> {PosInf, NegInf} \<or> parseFloat w \<in> {PosInf, NegInf}) \<longrightarrow>
      (isSignificantChange pn v w \<longleftrightarrow> parseFloat v \<noteq> parseFloat w)"
    using significant_infinite by blast
  have g4: "parseFloat v = NaN \<or> parseFloat w = NaN
        \<or> (pn \<notin> set size_properties \<and> pn \<noteq> ''opacity'') \<longrightarrow>
      (isSignificantChange pn v w \<longleftrightarrow> v \<noteq> [] \<or> w \<noteq> [])"
    using significant_otherwise by blast
  have x1: "computeStyleDiff e (single_style ''width'' ''100px'') (single_style ''width'' ''100.5px'') = None"
    by (simp add: style_diff_eval sig_width_small)
  have x2: "computeStyleDiff e (single_style ''width'' ''100px'') (single_style ''width'' ''102px'')
       = Some \<lparr>sd_selector = [], sd_changes = [(''width'', \<lparr>pc_from = ''100px'', pc_to = ''102px''\<rparr>)]\<rparr>"
    by (simp add: style_diff_eval sig_width_big)
  have x3: "computeStyleDiff e (single_style ''opacity'' ''1'') (single_style ''opacity'' ''0.995'') = None"
    by (simp add: style_diff_eval sig_opacity_small)
  have x4: "computeStyleDiff e (single_style ''opacity'' ''1'') (single_style ''opacity'' ''0.97'')
       = Some \<lparr>sd_selector = [], sd_changes = [(''opacity'', \<lparr>pc_from = ''1'', pc_to = ''0.97''\<rparr>)]\<rparr>"
    by (simp add: style_diff_eval sig_opacity_big)
  have x5: "computeStyleDiff e (single_style ''width'' ''1px'') (single_style ''width'' ''2px'')
       = Some \<lparr>sd_selector = [], sd_changes = [(''width'', \<lparr>pc_from = ''1px'', pc_to = ''2px''\<rparr>)]\<rparr>"
    by (simp add: style_diff_eval sig_width_exact)
  have x6: "computeStyleDiff e (single_style ''width'' ''1.3px'') (single_style ''width'' ''2.3px'') = None"
    by (simp add: style_diff_eval sig_width_boundary)
  have x7: "computeStyleDiff e (single_style ''opacity'' ''0'') (single_style ''opacity'' ''0.01'')
       = Some \<lparr>sd_selector = [], sd_changes = [(''opacity'', \<lparr>pc_from = ''0'', pc_to = ''0.01''\<rparr>)]\<rparr>"
    by (simp add: style_diff_eval sig_opacity_exact)
  have x8: "computeStyleDiff e (single_style ''opacity'' ''0.1'') (single_style ''opacity'' ''0.11'') = None"
    by (simp add: style_diff_eval sig_opacity_boundary)
  have x9: "computeStyleDiff e (single_style ''width'' ''1e2px'') (single_style ''width'' ''1px'')
       = Some \<lparr>sd_selector = [], sd_changes = [(''width'', \<lparr>pc_from = ''1e2px'', pc_to = ''1px''\<rparr>)]\<rparr>"
    by (simp add: style_diff_eval sig_width_exponent)
  have v1: "dval (parseFloat ''100.5px'') = 201 / 2"
    and v2: "dval (parseFloat ''1e2px'') = 100"
    and v3: "dval (parseFloat ''-.5e1x'') = - 5"
    and v4: "dval (parseFloat '' 7px'') = 7"
    and v5: "dval (parseFloat ''1.5E+1'') = 15"
    and v6: "dval (parseFloat ''+3.'') = 3"
    and v7: "dval (parseFloat ''0.1'') = 3602879701896397 / 2 ^ 55"
    by (simp_all add: parse_100_5px parse_1e2px parse_neg parse_space parse_upper_exp
          parse_trailing_dot parse_0_1 dval_def power_int_minus_divide)
  show ?thesis
    by (intro conjI g1 g2 g3 g4 x1 x2 x3 x4 x5 x6 x7 x8 x9 v1 v2 v3 v4 v5 v6 v7
          parse_infinity parse_auto)
qed

theorem significance_thresholds_witness:
  "isSignificantChange ''width'' ''1px'' ''2px''
   \<and> dval (parseFloat ''2px'') - dval (parseFloat ''1px'') = 1
   \<and> isSignificantChange ''opacity'' ''1px'' ''2px''
   \<and> isSignificantChange ''width'' ''Infinity'' ''1px''
   \<and> isSignificantChange ''width'' ''auto'' ''1px''"
proof -
  have d: "dval (parseFloat ''2px'') - dval (parseFloat ''1px'') = 1"
    by (simp add: parse_1px parse_2px dval_def power_int_minus_divide)
  have h1: "''width'' \<in> set size_properties
      \<and> parseFloat ''1px'' = Finite 4503599627370496 (- 52)
      \<and> parseFloat ''2px'' = Finite 4503599627370496 (- 51)"
    by (simp add: size_properties_def parse_1px parse_2px)
  have h3: "(''width'' \<in> set size_properties \<or> ''width'' = ''opacity'')
      \<and> parseFloat ''Infinity'' \<noteq> NaN \<and> parseFloat ''1px'' \<noteq> NaN
      \<and> (parseFloat ''Infinity'' \<in> {PosInf, NegInf} \<or> parseFloat ''1px'' \<in> {PosInf, NegInf})"
    by (simp add: size_properties_def parse_1px parse_infinity)
  have h4: "parseFloat ''auto'' = NaN \<or> parseFloat ''1px'' = NaN
      \<or> (''width'' \<notin> set size_properties \<and> ''width'' \<noteq> ''opacity'')"
    by (simp add: parse_auto)
  note t1 = significance_thresholds [where pn = "''width''" and v = "''1px''" and w = "''2px''"
      and a = 4503599627370496 and s = "- 52" and b = 4503599627370496 and u = "- 51" and e = 0]
  note t3 = significance_thresholds [where pn = "''width''" and v = "''Infinity''" and w = "''1px''"
      and a = 0 and s = 0 and b = 0 and u = 0 and e = 0]
  note t4 = significance_thresholds [where pn = "''width''" and v = "''auto''" and w = "''1px''"
      and a = 0 and s = 0 and b = 0 and u = 0 and e = 0]
  have "isSignificantChange ''width'' ''1px'' ''2px''"
    using t1 h1 unfolding d by simp
  moreover have "isSignificantChange ''opacity'' ''1px'' ''2px''"
    using t1 h1 unfolding d by simp
  moreover have "isSignificantChange ''width'' ''Infinity'' ''1px''"
    using t3 h3 by (simp add: parse_1px parse_infinity)
  moreover have "isSignificantChange ''width'' ''auto'' ''1px''"
    using t4 h4 by simp
  ultimately show ?thesis using d by simp
qed

lemma parse_10px: "parseFloat ''10px'' = Finite 5629499534213120 (- 49)"
  by (simp add: number_defs)

lemma parse_10_4px: "parseFloat ''10.4px'' = Finite 5854679515581645 (- 49)"
  by (simp add: number_defs)

lemma sig_height_small: "\<not> isSignificantChange ''height'' ''10px'' ''10.4px''"
  unfolding isSignificantChange_def parse_10px parse_10_4px one_px_eval
  by (simp add: size_properties_def isNaN_def d_sub_def d_abs_def d_ge_def round_ratio_def at_least_pow2_def Let_def)

text \<open>
  A height change of 0.4px is the only difference and is not significant: the style
  diff is null, not an empty map.
\<close>

theorem style_diff_null_counterexample:
  "computeStyleDiff 0 (single_style ''height'' ''10px'') (single_style ''height'' ''10.4px'') = None"
  by (simp add: style_diff_eval sig_height_small)

text \<open>
  C7 (amended). The style diff is null exactly when no whitelisted property differs
  significantly; it never returns an empty map.
\<close>

theorem style_diff_null_when_insignificant:
  "computeStyleDiff e beforeStyles afterStyles = None \<longleftrightarrow>
     (\<forall>prop\<in>set MEANINGFUL_STYLE_PROPERTIES.
        \<not> (beforeStyles prop \<noteq> afterStyles prop
           \<and> isSignificantChange prop (beforeStyles prop) (afterStyles prop)))"
proof -
  let ?changes = "foldl (style_step beforeStyles afterStyles) [] MEANINGFUL_STYLE_PROPERTIES"
  have "computeStyleDiff e beforeStyles afterStyles = None \<longleftrightarrow> ?changes = []"
    by (simp add: computeStyleDiff_def Let_def)
  also have "\<dots> \<longleftrightarrow> (\<forall>k. map_of ?changes k = None)"
    by (metis map_of_eq_empty_iff)
  also have "\<dots> \<longleftrightarrow> (\<forall>prop\<in>set MEANINGFUL_STYLE_PROPERTIES.
        \<not> (beforeStyles prop \<noteq> afterStyles prop
           \<and> isSignificantChange prop (beforeStyles prop) (afterStyles prop)))"
    unfolding map_of_style_fold by auto
  finally show ?thesis .
qed

theorem style_diff_null_when_insignificant_witness:
  "single_style ''opacity'' ''1'' ''opacity'' \<noteq> single_style ''opacity'' ''0.995'' ''opacity''
   \<and> computeStyleDiff 0 (single_style ''opacity'' ''1'') (single_style ''opacity'' ''0.995'') = None"
proof -
  have h: "\<forall>prop\<in>set MEANINGFUL_STYLE_PROPERTIES.
        \<not> (single_style ''opacity'' ''1'' prop \<noteq> single_style ''opacity'' ''0.995'' prop
           \<and> isSignificantChange prop (single_style ''opacity'' ''1'' prop)
                (single_style ''opacity'' ''0.995'' prop))"
    by (simp add: MEANINGFUL_STYLE_PROPERTIES_def single_style_def sig_opacity_small)
  with style_diff_null_when_insignificant
         [of 0 "single_style ''opacity'' ''1''" "single_style ''opacity'' ''0.995''"]
  have "computeStyleDiff 0 (single_style ''opacity'' ''1'') (single_style ''opacity'' ''0.995'') = None"
    by blast
  then show ?thesis by (simp add: single_style_def)
qed

lemma set_add_target: "set (add_target t s) = set s \<union> (case t of ElementNode e \<Rightarrow> {e} | OtherNode n \<Rightarrow> {})"
  by (auto simp: add_target_def set_add_def split: node.splits)

lemma distinct_add_target: "distinct s \<Longrightarrow> distinct (add_target t s)"
  by (auto simp: add_target_def set_add_def split: node.splits)

lemma compress_fold_affected:
  "set (cs_affectedElements (foldl compress_step st ms)) = set (cs_affectedElements st) \<union> affected ms"
proof (induction ms arbitrary: st)
  case Nil
  show ?case by (simp add: affected_def)
next
  case (Cons m ms)
  have "set (cs_affectedElements (compress_step st m))
          = set (cs_affectedElements st) \<union> (case mr_target m of ElementNode e \<Rightarrow> {e} | OtherNode n \<Rightarrow> {})"
    by (simp add: compress_step_def Let_def set_add_target)
  moreover have "affected (m # ms) = (case mr_target m of ElementNode e \<Rightarrow> {e} | OtherNode n \<Rightarrow> {}) \<union> affected ms"
    by (auto simp: affected_def split: node.splits)
  ultimately show ?case using Cons [of "compress_step st m"] by auto
qed

lemma compress_fold_distinct:
  "distinct (cs_affectedElements st) \<Longrightarrow> distinct (cs_affectedElements (foldl compress_step st ms))"
proof (induction ms arbitrary: st)
  case Nil
  then show ?case by simp
next
  case (Cons m ms)
  have "distinct (cs_affectedElements (compress_step st m))"
    using Cons.prems by (simp add: compress_step_def Let_def distinct_add_target)
  then show ?case using Cons.IH by simp
qed

lemma compress_fold_class:
  "cs_hasClassChanges (foldl compress_step st ms) = (cs_hasClassChanges st \<or> hasClassChange ms)"
  by (induction ms arbitrary: st) (auto simp: hasClassChange_def compress_step_def Let_def)

lemma compress_fold_child:
  "cs_hasChildListChanges (foldl compress_step st ms) = (cs_hasChildListChanges st \<or> hasChildListChange ms)"
  by (induction ms arbitrary: st) (auto simp: hasChildListChange_def compress_step_def Let_def)

lemma compress_fold_attr:
  "cs_hasAttributeChanges (foldl compress_step st ms)
     = (cs_hasAttributeChanges st \<or> hasClassChange ms \<or> hasOtherAttributeChange ms)"
  by (induction ms arbitrary: st)
     (auto simp: hasClassChange_def hasOtherAttributeChange_def compress_step_def Let_def)

lemma finite_affected: "finite (affected ms)"
proof -
  have "affected ms \<subseteq> (\<lambda>m. case mr_target m of ElementNode e \<Rightarrow> e | OtherNode n \<Rightarrow> n) ` set ms"
    by (force simp: affected_def)
  then show ?thesis by (rule finite_subset) simp
qed

lemma compress_size: "length (cs_affectedElements (foldl compress_step compress_init ms)) = card (affected ms)"
proof -
  have d: "distinct (cs_affectedElements (foldl compress_step compress_init ms))"
    by (rule compress_fold_distinct) (simp add: compress_init_def)
  have "set (cs_affectedElements (foldl compress_step compress_init ms)) = affected ms"
    by (simp add: compress_fold_affected compress_init_def)
  with d show ?thesis by (metis distinct_card)
qed

lemma class_change_affects:
  assumes "well_formed_batch ms" and "hasClassChange ms"
  shows "0 < card (affected ms)"
proof -
  from assms(2) obtain m where m: "m \<in> set ms" "mr_type m = ''attributes''"
    by (auto simp: hasClassChange_def list_ex_iff)
  with assms(1) have "case mr_target m of ElementNode e \<Rightarrow> True | OtherNode n \<Rightarrow> False"
    by (simp add: well_formed_batch_def list_all_iff)
  then obtain e where "mr_target m = ElementNode e"
    by (cases "mr_target m") simp_all
  with m have "e \<in> affected ms" by (auto simp: affected_def)
  then show ?thesis using finite_affected by (metis card_gt_0_iff empty_iff)
qed

text \<open>
  On every well-formed batch the compressor of the dom-diff module classifies in the
  priority order of the specification and counts the distinct affected elements; the
  empty batch is \<open>unknown\<close> with count 0.
\<close>

lemma compressMutations_classification:
  "(well_formed_batch batch \<longrightarrow>
      intent (compressMutations batch) = classify_spec batch
    \<and> affectedElements (compressMutations batch) = card (affected batch))
   \<and> intent (compressMutations []) = ''unknown''
   \<and> affectedElements (compressMutations []) = 0"
proof (intro conjI impI)
  assume wf: "well_formed_batch batch"
  let ?st = "foldl compress_step compress_init batch"
  have cls: "cs_hasClassChanges ?st = hasClassChange batch"
    and chl: "cs_hasChildListChanges ?st = hasChildListChange batch"
    and att: "cs_hasAttributeChanges ?st = (hasClassChange batch \<or> hasOtherAttributeChange batch)"
    by (simp_all add: compress_fold_class compress_fold_child compress_fold_attr compress_init_def)
  have pos: "hasClassChange batch \<Longrightarrow> 0 < card (affected batch)"
    using wf by (rule class_change_affects)
  show "intent (compressMutations batch) = classify_spec batch"
    unfolding compressMutations_def classify_spec_def Let_def
    using pos by (auto simp: cls chl att compress_size)
  show "affectedElements (compressMutations batch) = card (affected batch)"
    by (simp add: compressMutations_def Let_def compress_size)
next
  show "intent (compressMutations []) = ''unknown''"
    by (simp add: compressMutations_def compress_init_def)
  show "affectedElements (compressMutations []) = 0"
    by (simp add: compressMutations_def compress_init_def)
qed

lemmas compress_eval = compressMutations_def compressMutations_inline_def compress_step_def
  inline_step_def compress_init_def add_target_def set_add_def attribute_mutation_def
  childList_mutation_def Let_def

lemma compressMutations_classification_example:
  "well_formed_batch [attribute_mutation ''class'' 7, childList_mutation 8, attribute_mutation ''hidden'' 9]
   \<and> intent (compressMutations [attribute_mutation ''class'' 7, childList_mutation 8, attribute_mutation ''hidden'' 9])
       = ''dom-restructure''
   \<and> classify_spec [attribute_mutation ''class'' 7, childList_mutation 8, attribute_mutation ''hidden'' 9]
       = ''dom-restructure''
   \<and> card (affected [attribute_mutation ''class'' 7, childList_mutation 8, attribute_mutation ''hidden'' 9]) = 3"
proof -
  let ?b = "[attribute_mutation ''class'' 7, childList_mutation 8, attribute_mutation ''hidden'' 9]"
  have wf: "well_formed_batch ?b"
    by (simp add: well_formed_batch_def attribute_mutation_def childList_mutation_def)
  have i: "intent (compressMutations ?b) = ''dom-restructure''"
    and n: "affectedElements (compressMutations ?b) = 3"
    by (simp_all add: compress_eval)
  from compressMutations_classification [of ?b] wf i n show ?thesis by simp
qed

text \<open>
  C4. The priority order asks for \<open>attribute-change\<close> on a batch of one \<open>hidden\<close>
  attribute mutation of an element, and the dom-diff module gives it; the inline copy,
  the compressor the page runs, answers \<open>unknown\<close>.
\<close>

theorem inline_compressor_breaks_priority_order:
  "classify_spec [attribute_mutation ''hidden'' 7] = ''attribute-change''
   \<and> intent (compressMutations [attribute_mutation ''hidden'' 7]) = ''attribute-change''
   \<and> intent (compressMutations_inline [attribute_mutation ''hidden'' 7]) = ''unknown''"
  by (simp add: compress_eval classify_spec_def hasClassChange_def hasChildListChange_def
        hasOtherAttributeChange_def)

text \<open>
  C9. On a batch of one \<open>style\<close> attribute mutation the dom-diff module answers
  \<open>attribute-change\<close> and the inline copy answers \<open>unknown\<close>; the counts agree.
\<close>

theorem inline_compressor_diverges:
  "intent (compressMutations [attribute_mutation ''style'' 7]) = ''attribute-change''
   \<and> intent (compressMutations_inline [attribute_mutation ''style'' 7]) = ''unknown''
   \<and> affectedElements (compressMutations [attribute_mutation ''style'' 7]) = 1
   \<and> affectedElements (compressMutations_inline [attribute_mutation ''style'' 7]) = 1"
  by (simp add: compress_eval)

lemma inline_fold_affected:
  "is_affected (foldl inline_step ist ms) = cs_affectedElements (foldl compress_step st ms)"
  if "is_affected ist = cs_affectedElements st"
  using that
proof (induction ms arbitrary: ist st)
  case Nil
  then show ?case by simp
next
  case (Cons m ms)
  have "is_affected (inline_step ist m) = cs_affectedElements (compress_step st m)"
    using Cons.prems by (simp add: inline_step_def compress_step_def Let_def)
  then show ?case using Cons.IH by simp
qed

lemma inline_fold_class:
  "is_hasClass (foldl inline_step st ms) = (is_hasClass st \<or> hasClassChange ms)"
  by (induction ms arbitrary: st) (auto simp: hasClassChange_def inline_step_def Let_def)

lemma inline_fold_child:
  "is_hasChild (foldl inline_step st ms) = (is_hasChild st \<or> hasChildListChange ms)"
  by (induction ms arbitrary: st) (auto simp: hasChildListChange_def inline_step_def Let_def)

text \<open>
  The two compressors always agree on the count, and on the intent for a batch that has
  no attribute mutation other than \<open>class\<close> and, when it has a childList mutation, has an
  Element target.
\<close>

lemma inline_compressor_same_count:
  "affectedElements (compressMutations_inline batch) = affectedElements (compressMutations batch)"
proof -
  have "is_affected (foldl inline_step \<lparr>is_affected = [], is_hasClass = False, is_hasChild = False\<rparr> batch)
          = cs_affectedElements (foldl compress_step compress_init batch)"
    by (rule inline_fold_affected) (simp add: compress_init_def)
  then show ?thesis
    by (simp add: compressMutations_inline_def compressMutations_def Let_def)
qed

lemma inline_compressor_same_intent:
  assumes "\<not> hasOtherAttributeChange batch"
    and "hasChildListChange batch \<Longrightarrow> affected batch \<noteq> {}"
  shows "intent (compressMutations_inline batch) = intent (compressMutations batch)"
proof -
  let ?ist = "foldl inline_step \<lparr>is_affected = [], is_hasClass = False, is_hasChild = False\<rparr> batch"
  let ?st = "foldl compress_step compress_init batch"
  have aff: "is_affected ?ist = cs_affectedElements ?st"
    by (rule inline_fold_affected) (simp add: compress_init_def)
  have size: "length (cs_affectedElements ?st) = card (affected batch)"
    by (rule compress_size)
  have cls: "is_hasClass ?ist = hasClassChange batch" "cs_hasClassChanges ?st = hasClassChange batch"
    and chl: "is_hasChild ?ist = hasChildListChange batch" "cs_hasChildListChanges ?st = hasChildListChange batch"
    and att: "cs_hasAttributeChanges ?st = hasClassChange batch"
    using assms(1)
    by (simp_all add: inline_fold_class inline_fold_child compress_fold_class compress_fold_child
          compress_fold_attr compress_init_def)
  have pos: "hasChildListChange batch \<Longrightarrow> 0 < card (affected batch)"
    using assms(2) finite_affected by (simp add: card_gt_0_iff)
  show ?thesis
    unfolding compressMutations_inline_def compressMutations_def Let_def
    using pos by (auto simp: aff size cls chl att)
qed

section \<open>Properties of the selector engine\<close>

declare structural_loop.simps [simp del]

lemma isUnique_query:
  "isUnique doc element selector \<Longrightarrow> doc_querySelectorAll doc selector = Some [element]"
  by (auto simp: isUnique_def split: option.splits list.splits)

text \<open>
  C5. A selector that \<open>generate\<close> takes from the attribute tier or the class tier,
  queried against the whole document, matches exactly one element, the one it was
  generated for.
\<close>

theorem tiered_selector_requeries_to_element:
  assumes "generate_tier eng doc element = (t, s)" and "t \<noteq> StructuralTier"
  shows "generate eng doc element = s \<and> doc_querySelectorAll doc s = Some [element]"
proof -
  have g: "generate eng doc element = s"
    using assms(1) by (simp add: generate_def)
  have "isUnique doc element s"
    using assms unfolding generate_tier_def
    by (auto split: option.splits if_splits)
  then show ?thesis using g by (simp add: isUnique_query)
qed

lemmas selector_eval = generate_def generate_tier_def getAttributeSelector_def
  getClassSelector_def getStructuralPath_def StableSelectorEngine_def default_options_def
  DEFAULT_PREFERRED_ATTRIBUTES_def DEFAULT_IGNORED_ATTRIBUTES_def isUnique_def
  cleanAttributeValue_def toLowerCase_def lower_char_def char_of_def bit_0 level_selector_def Let_def

lemma app_page_body:
  "generate_tier (StableSelectorEngine default_options) app_page 2
     = (AttributeTier, ''body[id=\"app\"]'')"
  by (simp add: selector_eval app_page_def bare_page_def)

theorem tiered_selector_requeries_to_element_witness:
  "generate (StableSelectorEngine default_options) app_page 2 = ''body[id=\"app\"]''
   \<and> doc_querySelectorAll app_page ''body[id=\"app\"]'' = Some [2]"
  using tiered_selector_requeries_to_element [OF app_page_body] by simp

text \<open>
  C2. For the document root of a page whose \<open><html>\<close> has no preferred attribute and no
  class, \<open>generate\<close> returns the empty string: the structural loop stops at the root
  before it adds a level.
\<close>

theorem root_selector_is_empty:
  "generate (StableSelectorEngine default_options) bare_page (doc_documentElement bare_page) = []"
  by (simp add: selector_eval bare_page_def structural_loop.simps)

lemma bare_page_body:
  "generate (StableSelectorEngine default_options) bare_page 2 = ''body''"
  by (simp add: selector_eval bare_page_def structural_loop.simps)

text \<open>Away from the root the structural path, and so the selector, is not empty.\<close>

lemma structural_loop_suffix:
  "\<exists>pre. structural_loop eng doc current depth path = pre @ path"
proof (induction eng doc current depth path rule: structural_loop.induct)
  case (1 eng doc current depth path)
  show ?case
  proof (cases current)
    case None
    then show ?thesis by (simp add: structural_loop.simps)
  next
    case (Some c)
    show ?thesis
    proof (cases "c \<noteq> doc_documentElement doc \<and> depth < maxDepth eng")
      case True
      from "1.IH" [OF Some True] obtain pre where
        "structural_loop eng doc (doc_parentElement doc c) (depth + 1) (level_selector doc c # path)
           = pre @ level_selector doc c # path" by blast
      then have "structural_loop eng doc current depth path = (pre @ [level_selector doc c]) @ path"
        using Some True by (subst structural_loop.simps) simp
      then show ?thesis by blast
    next
      case False
      then show ?thesis using Some by (subst structural_loop.simps) auto
    qed
  qed
qed

lemma join_nonempty: "xs \<noteq> [] \<Longrightarrow> last xs \<noteq> [] \<Longrightarrow> join sep xs \<noteq> []"
  by (induction sep xs rule: join.induct) auto

lemma level_selector_nonempty: "doc_tagName doc c \<noteq> [] \<Longrightarrow> level_selector doc c \<noteq> []"
  by (auto simp: level_selector_def toLowerCase_def Let_def split: option.splits)

lemma structural_path_nonempty:
  assumes "element \<noteq> doc_documentElement doc" and "0 < maxDepth eng"
    and "doc_tagName doc element \<noteq> []"
  shows "getStructuralPath eng doc element \<noteq> []"
proof -
  obtain pre where
    "structural_loop eng doc (doc_parentElement doc element) (0 + 1) [level_selector doc element]
       = pre @ [level_selector doc element]"
    using structural_loop_suffix by blast
  then have "structural_loop eng doc (Some element) 0 [] = pre @ [level_selector doc element]"
    using assms(1,2) by (subst structural_loop.simps) simp
  then show ?thesis
    using level_selector_nonempty [OF assms(3)]
    by (simp add: getStructuralPath_def join_nonempty)
qed

lemma generate_nonempty_off_root:
  assumes "element \<noteq> doc_documentElement doc" and "0 < maxDepth eng"
    and "doc_tagName doc element \<noteq> []"
  shows "generate eng doc element \<noteq> []"
  using structural_path_nonempty [OF assms]
  by (auto simp: generate_def generate_tier_def split: option.splits)

end
